theory Spec2Isabelle
  imports Complex_Main "HOL-Library.Char_ord" "HOL-Library.List_Lexorder" "HOL-Library.Multiset"
begin

section \<open>Values shared by the modules\<close>

text \<open>
  The values the crawler receives from the remote API and stores in its dictionaries:
  Python's \<^verbatim>\<open>None\<close>, booleans, integers, strings, lists and dictionaries
  (a parsed JSON document). Floating-point numbers do not occur in the fields the
  functions below inspect and are left out.
\<close>

datatype json =
    JNull
  | JBool bool
  | JInt int
  | JStr string
  | JList "json list"
  | JDict "(string \<times> json) list"

text \<open>The exceptions that the functions below can raise to their callers;
  \<^verbatim>\<open>rich.errors.MarkupError\<close> carries its text.\<close>

datatype error = AttributeError | ValueError | RuntimeError | MarkupError string

text \<open>\<^verbatim>\<open>d.get(key, default)\<close> on a dictionary.\<close>

definition dict_get :: "(string \<rightharpoonup> json) \<Rightarrow> string \<Rightarrow> json \<Rightarrow> json" where
  "dict_get d k dflt = (case d k of None \<Rightarrow> dflt | Some v \<Rightarrow> v)"

text \<open>\<^verbatim>\<open>s.startswith('/')\<close> and \<^verbatim>\<open>s.endswith('/')\<close>.\<close>

definition startswith_slash :: "string \<Rightarrow> bool" where
  "startswith_slash s = (take 1 s = ''/'')"

definition endswith_slash :: "string \<Rightarrow> bool" where
  "endswith_slash s = (s \<noteq> [] \<and> last s = CHR ''/'')"

text \<open>\<^verbatim>\<open>str(n)\<close> for an integer and \<^verbatim>\<open>str(b)\<close> for a boolean.\<close>

definition digit_char :: "nat \<Rightarrow> char" where
  "digit_char d = ''0123456789'' ! d"

function str_nat :: "nat \<Rightarrow> string" where
  "str_nat n = (if n < 10 then [digit_char n] else str_nat (n div 10) @ [digit_char (n mod 10)])"
  by pat_completeness auto
termination
  by (relation "measure (\<lambda>n. n)") auto

declare str_nat.simps [simp del]

definition str_int :: "int \<Rightarrow> string" where
  "str_int i = (if i < 0 then ''-'' @ str_nat (nat (- i)) else str_nat (nat i))"

definition str_bool :: "bool \<Rightarrow> string" where
  "str_bool b = (if b then ''True'' else ''False'')"

text \<open>\<^verbatim>\<open>s.upper()\<close> and \<^verbatim>\<open>s.lower()\<close>, character by character, on ASCII text.\<close>

definition upper_char :: "char \<Rightarrow> char" where
  "upper_char c = (if CHR ''a'' \<le> c \<and> c \<le> CHR ''z'' then char_of (of_char c - (32::nat)) else c)"

definition lower_char :: "char \<Rightarrow> char" where
  "lower_char c = (if CHR ''A'' \<le> c \<and> c \<le> CHR ''Z'' then char_of (of_char c + (32::nat)) else c)"

section \<open>models/page.py\<close>

text \<open>
  The dataclass \<^verbatim>\<open>Page\<close>. Python does not enforce the annotations: \<^verbatim>\<open>id\<close>,
  \<^verbatim>\<open>title\<close> and \<^verbatim>\<open>parent_id\<close> hold whatever the API entry holds, while
  \<^verbatim>\<open>path\<close> and \<^verbatim>\<open>url\<close> are built by string operations.
\<close>

record page =
  page_id :: json
  page_path :: string
  page_url :: string
  page_title :: json
  page_parent_id :: json
  page_private :: bool

text \<open>
  \<^verbatim>\<open>urllib.parse.urljoin\<close> belongs to the Python standard library. Its body opens with
  \<^verbatim>\<open>if not base: return url\<close> and \<^verbatim>\<open>if not url: return base\<close>; the reference
  resolution that follows (which parses both arguments and can raise \<^verbatim>\<open>ValueError\<close>)
  is the parameter \<open>resolve\<close>, for which the next section gives the library's function
  \<open>resolve_py\<close>.
\<close>

definition urljoin :: "(string \<Rightarrow> string \<Rightarrow> error + string) \<Rightarrow> string \<Rightarrow> string \<Rightarrow> error + string" where
  "urljoin resolve base u =
     (if base = [] then Inr u else if u = [] then Inr base else resolve base u)"

text \<open>
  \<^verbatim>\<open>Page.from_json(layout, parent_url, is_private, base_url)\<close>. The method call
  \<^verbatim>\<open>friendly_url.startswith('/')\<close> raises \<^verbatim>\<open>AttributeError\<close> when the entry's
  \<^verbatim>\<open>friendlyURL\<close> is present and is not a string.
\<close>

definition from_json ::
  "(string \<Rightarrow> string \<Rightarrow> error + string) \<Rightarrow> (string \<rightharpoonup> json) \<Rightarrow> string \<Rightarrow> bool \<Rightarrow> string
     \<Rightarrow> error + page" where
  "from_json resolve layout parent_url is_private base_url =
     (let layout_id = dict_get layout ''layoutId'' (JInt 0);
          friendly = dict_get layout ''friendlyURL'' (JStr []);
          layout_name = dict_get layout ''name'' (JStr [])
      in case friendly of
           JStr f \<Rightarrow>
             (let friendly_url = (if startswith_slash f then drop 1 f else f);
                  full_path = (if parent_url \<noteq> [] then parent_url @ ''/'' @ friendly_url
                               else friendly_url)
              in case urljoin resolve base_url full_path of
                   Inl e \<Rightarrow> Inl e
                 | Inr joined \<Rightarrow>
                     (let complete_url = (if endswith_slash joined then butlast joined else joined)
                      in Inr \<lparr>page_id = layout_id, page_path = full_path,
                              page_url = complete_url, page_title = layout_name,
                              page_parent_id = dict_get layout ''parentLayoutId'' (JInt 0),
                              page_private = is_private\<rparr>))
         | _ \<Rightarrow> Inl AttributeError)"


section \<open>urllib/parse.py\<close>

text \<open>
  The reference resolution of \<^verbatim>\<open>urljoin\<close>, after its two guards, as the standard
  library of CPython 3.11 has it: \<^verbatim>\<open>urlparse\<close> of both arguments (through
  \<^verbatim>\<open>urlsplit\<close>), the merge of the two paths with the removal of dot segments, and
  \<^verbatim>\<open>urlunparse\<close>. The arguments are text (never bytes), fragments are allowed, and
  the characters are the 8-bit ones of \<^typ>\<open>char\<close>, for which the NFKC check of the
  network location changes nothing. The validation of a bracketed host (an IP literal) by
  the \<^verbatim>\<open>ipaddress\<close> module is the parameter \<open>host_ok\<close>.
\<close>

text \<open>The scheme tables of the module.\<close>

definition uses_relative :: "string list" where
  "uses_relative = ['''', ''ftp'', ''http'', ''gopher'', ''nntp'', ''imap'',
                    ''wais'', ''file'', ''https'', ''shttp'', ''mms'',
                    ''prospero'', ''rtsp'', ''rtsps'', ''rtspu'', ''sftp'',
                    ''svn'', ''svn+ssh'', ''ws'', ''wss'']"

definition uses_netloc :: "string list" where
  "uses_netloc = ['''', ''ftp'', ''http'', ''gopher'', ''nntp'', ''telnet'',
                  ''imap'', ''wais'', ''file'', ''mms'', ''https'', ''shttp'',
                  ''snews'', ''prospero'', ''rtsp'', ''rtsps'', ''rtspu'', ''rsync'',
                  ''svn'', ''svn+ssh'', ''sftp'', ''nfs'', ''git'', ''git+ssh'',
                  ''ws'', ''wss'']"

definition uses_params :: "string list" where
  "uses_params = ['''', ''ftp'', ''hdl'', ''prospero'', ''http'', ''imap'',
                  ''https'', ''shttp'', ''rtsp'', ''rtsps'', ''rtspu'', ''sip'',
                  ''sips'', ''mms'', ''sftp'', ''tel'']"

text \<open>The characters stripped from the ends (\<^verbatim>\<open>_WHATWG_C0_CONTROL_OR_SPACE\<close>), the
  characters removed everywhere (\<^verbatim>\<open>_UNSAFE_URL_BYTES_TO_REMOVE\<close>) and the characters of a
  scheme (\<^verbatim>\<open>scheme_chars\<close>).\<close>

definition c0_or_space :: "char \<Rightarrow> bool" where
  "c0_or_space c = (of_char c \<le> (32::nat))"

definition unsafe_byte :: "char \<Rightarrow> bool" where
  "unsafe_byte c = (c = CHR 0x09 \<or> c = CHR 0x0D \<or> c = CHR 0x0A)"

definition ascii_alpha :: "char \<Rightarrow> bool" where
  "ascii_alpha c = ((CHR ''a'' \<le> c \<and> c \<le> CHR ''z'') \<or> (CHR ''A'' \<le> c \<and> c \<le> CHR ''Z''))"

definition scheme_char :: "char \<Rightarrow> bool" where
  "scheme_char c = (ascii_alpha c \<or> (CHR ''0'' \<le> c \<and> c \<le> CHR ''9'')
                     \<or> c = CHR ''+'' \<or> c = CHR ''-'' \<or> c = CHR ''.'')"

text \<open>\<^verbatim>\<open>s.split(c, 1)\<close> when \<open>c\<close> occurs in \<open>s\<close>, \<^verbatim>\<open>s.split(c)\<close> and
  \<^verbatim>\<open>sep.join(xs)\<close>.\<close>

definition cut_at :: "char \<Rightarrow> string \<Rightarrow> string \<times> string" where
  "cut_at c s = (takeWhile (\<lambda>x. x \<noteq> c) s, tl (dropWhile (\<lambda>x. x \<noteq> c) s))"

fun split_on :: "char \<Rightarrow> string \<Rightarrow> string list" where
  "split_on c [] = [[]]"
| "split_on c (x # xs) =
     (if x = c then [] # split_on c xs
      else (case split_on c xs of y # ys \<Rightarrow> (x # y) # ys | [] \<Rightarrow> [[x]]))"

fun join_with :: "string \<Rightarrow> string list \<Rightarrow> string" where
  "join_with sep [] = []"
| "join_with sep [x] = x"
| "join_with sep (x # y # ys) = x @ sep @ join_with sep (y # ys)"

text \<open>\<^verbatim>\<open>urlsplit(url, scheme)\<close>: \<^verbatim>\<open>_splitnetloc\<close> cuts the network location at the
  first of \<^verbatim>\<open>/?#\<close>; a bracket without its partner raises \<^verbatim>\<open>ValueError\<close>.\<close>

definition netloc_delim :: "char \<Rightarrow> bool" where
  "netloc_delim c = (c = CHR ''/'' \<or> c = CHR ''?'' \<or> c = CHR ''#'')"

definition split_rest :: "string \<Rightarrow> string \<Rightarrow> string \<Rightarrow> string \<times> string \<times> string \<times> string \<times> string" where
  "split_rest scheme netloc u =
     (case (if CHR ''#'' \<in> set u then cut_at CHR ''#'' u else (u, [])) of
        (u1, fragment) \<Rightarrow>
          (case (if CHR ''?'' \<in> set u1 then cut_at CHR ''?'' u1 else (u1, [])) of
             (u2, query) \<Rightarrow> (scheme, netloc, u2, query, fragment)))"

definition urlsplit ::
  "(string \<Rightarrow> bool) \<Rightarrow> string \<Rightarrow> string
     \<Rightarrow> error + (string \<times> string \<times> string \<times> string \<times> string)" where
  "urlsplit host_ok url0 scheme0 =
     (let u1 = filter (\<lambda>c. \<not> unsafe_byte c) (dropWhile c0_or_space url0);
          scheme1 = filter (\<lambda>c. \<not> unsafe_byte c)
                      (rev (dropWhile c0_or_space (rev (dropWhile c0_or_space scheme0))));
          pre = takeWhile (\<lambda>c. c \<noteq> CHR '':'') u1
      in case (if CHR '':'' \<in> set u1 \<and> pre \<noteq> [] \<and> ascii_alpha (hd u1) \<and> list_all scheme_char pre
               then (map lower_char pre, tl (dropWhile (\<lambda>c. c \<noteq> CHR '':'') u1))
               else (scheme1, u1)) of
           (scheme, u2) \<Rightarrow>
             if take 2 u2 = ''//''
             then (let netloc = takeWhile (\<lambda>c. \<not> netloc_delim c) (drop 2 u2);
                       u3 = dropWhile (\<lambda>c. \<not> netloc_delim c) (drop 2 u2)
                   in if (CHR ''['' \<in> set netloc \<and> CHR '']'' \<notin> set netloc)
                          \<or> (CHR '']'' \<in> set netloc \<and> CHR ''['' \<notin> set netloc)
                      then Inl ValueError
                      else if CHR ''['' \<in> set netloc \<and> CHR '']'' \<in> set netloc
                              \<and> \<not> host_ok (takeWhile (\<lambda>c. c \<noteq> CHR '']'')
                                             (tl (dropWhile (\<lambda>c. c \<noteq> CHR ''['') netloc)))
                      then Inl ValueError
                      else Inr (split_rest scheme netloc u3))
             else Inr (split_rest scheme [] u2))"

text \<open>\<^verbatim>\<open>_splitparams\<close> and \<^verbatim>\<open>urlparse\<close>.\<close>

definition splitparams :: "string \<Rightarrow> string \<times> string" where
  "splitparams u =
     (if CHR ''/'' \<in> set u
      then (let after = rev (takeWhile (\<lambda>c. c \<noteq> CHR ''/'') (rev u));
                before = take (length u - length after) u
            in if CHR '';'' \<in> set after
               then (before @ takeWhile (\<lambda>c. c \<noteq> CHR '';'') after,
                     tl (dropWhile (\<lambda>c. c \<noteq> CHR '';'') after))
               else (u, []))
      else cut_at CHR '';'' u)"

definition urlparse ::
  "(string \<Rightarrow> bool) \<Rightarrow> string \<Rightarrow> string
     \<Rightarrow> error + (string \<times> string \<times> string \<times> string \<times> string \<times> string)" where
  "urlparse host_ok url0 scheme0 =
     (case urlsplit host_ok url0 scheme0 of
        Inl e \<Rightarrow> Inl e
      | Inr (scheme, netloc, u, query, fragment) \<Rightarrow>
          if scheme \<in> set uses_params \<and> CHR '';'' \<in> set u
          then (case splitparams u of
                  (u', params) \<Rightarrow> Inr (scheme, netloc, u', params, query, fragment))
          else Inr (scheme, netloc, u, [], query, fragment))"

text \<open>\<^verbatim>\<open>urlunsplit\<close> and \<^verbatim>\<open>urlunparse\<close>.\<close>

definition urlunsplit :: "string \<times> string \<times> string \<times> string \<times> string \<Rightarrow> string" where
  "urlunsplit parts =
     (case parts of
        (scheme, netloc, u, query, fragment) \<Rightarrow>
          (let u1 = (if netloc \<noteq> [] \<or> (scheme \<noteq> [] \<and> scheme \<in> set uses_netloc) \<or> take 2 u = ''//''
                     then ''//'' @ netloc @ (if u \<noteq> [] \<and> take 1 u \<noteq> ''/'' then ''/'' @ u else u)
                     else u);
               u2 = (if scheme \<noteq> [] then scheme @ '':'' @ u1 else u1);
               u3 = (if query \<noteq> [] then u2 @ ''?'' @ query else u2)
           in if fragment \<noteq> [] then u3 @ ''#'' @ fragment else u3))"

definition urlunparse ::
  "string \<times> string \<times> string \<times> string \<times> string \<times> string \<Rightarrow> string" where
  "urlunparse parts =
     (case parts of
        (scheme, netloc, u, params, query, fragment) \<Rightarrow>
          urlunsplit (scheme, netloc, (if params \<noteq> [] then u @ '';'' @ params else u),
                      query, fragment))"

text \<open>The path merge of \<^verbatim>\<open>urljoin\<close>: the last part of the base path is dropped,
  empty segments between the first and the last are filtered out, and the dot segments
  are resolved from left to right.\<close>

definition filter_middle :: "string list \<Rightarrow> string list" where
  "filter_middle segs =
     (if length segs < 2 then segs
      else hd segs # filter (\<lambda>x. x \<noteq> []) (butlast (tl segs)) @ [last segs])"

definition resolve_step :: "string list \<Rightarrow> string \<Rightarrow> string list" where
  "resolve_step resolved_path seg =
     (if seg = ''..'' then butlast resolved_path
      else if seg = ''.'' then resolved_path
      else resolved_path @ [seg])"

definition merged_path :: "string \<Rightarrow> string \<Rightarrow> string" where
  "merged_path bpath path =
     (let base_parts0 = split_on CHR ''/'' bpath;
          base_parts = (if last base_parts0 \<noteq> [] then butlast base_parts0 else base_parts0);
          segments = (if take 1 path = ''/'' then split_on CHR ''/'' path
                      else filter_middle (base_parts @ split_on CHR ''/'' path));
          resolved_path = foldl resolve_step [] segments;
          resolved_path' = (if last segments = ''.'' \<or> last segments = ''..''
                            then resolved_path @ [[]] else resolved_path);
          joined = join_with ''/'' resolved_path'
      in if joined = [] then ''/'' else joined)"

text \<open>The body of \<^verbatim>\<open>urljoin(base, url)\<close> after the two guards.\<close>

definition resolve_py :: "(string \<Rightarrow> bool) \<Rightarrow> string \<Rightarrow> string \<Rightarrow> error + string" where
  "resolve_py host_ok base u =
     (case urlparse host_ok base [] of
        Inl e \<Rightarrow> Inl e
      | Inr (bscheme, bnetloc, bpath, bparams, bquery, bfragment) \<Rightarrow>
          (case urlparse host_ok u bscheme of
             Inl e \<Rightarrow> Inl e
           | Inr (scheme, netloc, path, params, query, fragment) \<Rightarrow>
               if scheme \<noteq> bscheme \<or> scheme \<notin> set uses_relative then Inr u
               else if scheme \<in> set uses_netloc \<and> netloc \<noteq> []
               then Inr (urlunparse (scheme, netloc, path, params, query, fragment))
               else (let netloc' = (if scheme \<in> set uses_netloc then bnetloc else netloc)
                     in if path = [] \<and> params = []
                        then Inr (urlunparse (scheme, netloc', bpath, bparams,
                                    (if query = [] then bquery else query), fragment))
                        else Inr (urlunparse (scheme, netloc', merged_path bpath path,
                                    params, query, fragment)))))"

section \<open>core/cache.py\<close>

text \<open>
  An entry of the shelve database is the dictionary \<^verbatim>\<open>{'time': ..., 'content': ...}\<close>;
  \<open>get_or_fetch\<close> reads both keys with \<^verbatim>\<open>.get\<close>, so each may be missing.
  Timestamps (\<^verbatim>\<open>time.time()\<close>) are real numbers.
\<close>

record cache_entry =
  entry_time :: "real option"
  entry_content :: "json option"

text \<open>The three messages \<open>get_or_fetch\<close> sends to \<^verbatim>\<open>logger.cache\<close>, each with the key.\<close>

datatype cache_event = CacheHit string | CacheExpired string | CacheUpdated string

record cache_manager =
  ttl :: int
  key_prefix :: string
  cache_db :: "string \<rightharpoonup> cache_entry"
  cache_log :: "cache_event list"

text \<open>
  \<^verbatim>\<open>CacheManager.__init__\<close> followed by \<^verbatim>\<open>open()\<close>: the configured time-to-live is
  in hours and is stored in seconds; \<open>db\<close> is the content of the database file.
\<close>

definition cache_manager_init :: "int \<Rightarrow> string \<Rightarrow> (string \<rightharpoonup> cache_entry) \<Rightarrow> cache_manager" where
  "cache_manager_init ttl_hours prefix db =
     \<lparr>ttl = ttl_hours * 3600, key_prefix = prefix, cache_db = db, cache_log = []\<rparr>"

text \<open>\<^verbatim>\<open>is_valid(cache_time)\<close>; \<open>now\<close> is the value \<^verbatim>\<open>time.time()\<close> returns.\<close>

definition is_valid :: "cache_manager \<Rightarrow> real \<Rightarrow> real \<Rightarrow> bool" where
  "is_valid cm now cache_time =
     (if ttl cm \<le> 0 then False else (now - cache_time) < real_of_int (ttl cm))"

text \<open>
  The second half of \<open>get_or_fetch\<close>: await the fetch function, store its result when
  the time-to-live is positive, and return it with the flag \<^verbatim>\<open>False\<close>. The fetch function
  acts on the caller's state \<open>'w\<close> and may raise; \<open>now_store\<close> is the clock at the write.
\<close>

definition fetch_and_store ::
  "cache_manager \<Rightarrow> real \<Rightarrow> string \<Rightarrow> string \<Rightarrow> ('w \<Rightarrow> (error + json) \<times> 'w) \<Rightarrow> 'w
     \<Rightarrow> (error + json \<times> bool) \<times> cache_manager \<times> 'w" where
  "fetch_and_store cm now_store full_key key fetch_func w =
     (case fetch_func w of
        (Inl e, w') \<Rightarrow> (Inl e, cm, w')
      | (Inr data, w') \<Rightarrow>
          (Inr (data, False),
           (if ttl cm > 0
            then cm\<lparr>cache_db := (cache_db cm)(full_key \<mapsto>
                        \<lparr>entry_time = Some now_store, entry_content = Some data\<rparr>),
                    cache_log := cache_log cm @ [CacheUpdated key]\<rparr>
            else cm),
           w'))"

text \<open>\<^verbatim>\<open>get_or_fetch(key, fetch_func)\<close>; \<open>now_check\<close> is the clock read by \<open>is_valid\<close>.\<close>

definition get_or_fetch ::
  "cache_manager \<Rightarrow> real \<Rightarrow> real \<Rightarrow> string \<Rightarrow> ('w \<Rightarrow> (error + json) \<times> 'w) \<Rightarrow> 'w
     \<Rightarrow> (error + json \<times> bool) \<times> cache_manager \<times> 'w" where
  "get_or_fetch cm now_check now_store key fetch_func w =
     (let full_key = key_prefix cm @ ''_'' @ key
      in case (if ttl cm > 0 then cache_db cm full_key else None) of
           Some cache_data \<Rightarrow>
             (let cache_time = (case entry_time cache_data of None \<Rightarrow> 0 | Some t \<Rightarrow> t)
              in if is_valid cm now_check cache_time
                 then (Inr ((case entry_content cache_data of None \<Rightarrow> JNull | Some c \<Rightarrow> c), True),
                       cm\<lparr>cache_log := cache_log cm @ [CacheHit key]\<rparr>, w)
                 else fetch_and_store (cm\<lparr>cache_log := cache_log cm @ [CacheExpired key]\<rparr>)
                        now_store full_key key fetch_func w)
         | None \<Rightarrow> fetch_and_store cm now_store full_key key fetch_func w)"


section \<open>core/session.py\<close>

text \<open>
  What one HTTP attempt can meet. The request, \<^verbatim>\<open>response.json()\<close> and
  \<^verbatim>\<open>response.text()\<close> can each raise: \<^verbatim>\<open>aiohttp.ClientError\<close>,
  \<^verbatim>\<open>asyncio.TimeoutError\<close>, or any other \<^verbatim>\<open>Exception\<close>. Each exception carries its
  text \<^verbatim>\<open>str(e)\<close>, which the handlers log.
\<close>

datatype exc = ClientError string | TimeoutError string | OtherException string

fun exc_text :: "exc \<Rightarrow> string" where
  "exc_text (ClientError m) = m"
| "exc_text (TimeoutError m) = m"
| "exc_text (OtherException m) = m"

text \<open>The exceptions of the first \<^verbatim>\<open>except\<close> clause.\<close>

fun is_transient :: "exc \<Rightarrow> bool" where
  "is_transient (ClientError m) = True"
| "is_transient (TimeoutError m) = True"
| "is_transient (OtherException m) = False"

record response =
  status :: int
  json_body :: "exc + json"
  text_body :: "exc + string"

type_synonym outcome = "exc + response"

text \<open>The observable effects of the transport: the HTTP calls, the logger's messages
  (with the values they format) and the sleeps.\<close>

datatype log_event =
    Request bool string "(string \<times> json) list" nat
  | WarnStatus nat nat int
  | ErrorDetails string
  | ErrorExhausted nat exc
  | WarnBackoff nat nat
  | Sleep nat
  | ErrorUnexpected exc

text \<open>
  The session manager with its logger. \<^verbatim>\<open>Logger.log\<close> (utils/logger.py) passes the
  line to \<^verbatim>\<open>console.print\<close> of the rich library, which reads square-bracket tags in it
  as markup and raises \<^verbatim>\<open>MarkupError\<close> on a closing tag that matches no open tag. The
  fixed words of the transport's messages, the level, the time and the numbers hold no
  such tag, so whether a line prints depends on the text the message inserts: a response
  text or \<^verbatim>\<open>str(e)\<close>. The field \<open>logger\<close> gives, for an inserted text, \<open>None\<close> when
  the line is printed and \<open>Some m\<close> when \<^verbatim>\<open>MarkupError\<close> with the text \<open>m\<close> is
  raised.
\<close>

record session_manager =
  session_open :: bool
  max_concurrent :: nat
  logger :: "string \<Rightarrow> string option"

text \<open>How one pass through the loop body ends.\<close>

datatype attempt_end = Continue | Return json | Raise error

text \<open>
  The body of the \<^verbatim>\<open>try\<close> block for one attempt, with the messages logged in it:
  \<open>Inl\<close> is an exception raised inside the block (a \<^verbatim>\<open>MarkupError\<close> of the logger is
  one of the other exceptions), \<open>Inr (Some v)\<close> a \<^verbatim>\<open>return v\<close>, \<open>Inr None\<close> the end
  of the block.
\<close>

definition try_request ::
  "(string \<Rightarrow> string option) \<Rightarrow> (nat \<Rightarrow> outcome) \<Rightarrow> nat \<Rightarrow> nat
     \<Rightarrow> (exc + json option) \<times> log_event list" where
  "try_request lg outs max_retries attempt =
     (case outs attempt of
        Inl e \<Rightarrow> (Inl e, [])
      | Inr resp \<Rightarrow>
          if status resp = 200 \<or> status resp = 201
          then (case json_body resp of Inl e \<Rightarrow> (Inl e, []) | Inr j \<Rightarrow> (Inr (Some j), []))
          else (case text_body resp of
                  Inl e \<Rightarrow> (Inl e, [])
                | Inr error_text \<Rightarrow>
                    if attempt = max_retries - 1
                    then (case lg (take 200 error_text) of
                            None \<Rightarrow>
                              (Inr (Some (JList [])),
                               [WarnStatus (attempt + 1) max_retries (status resp),
                                ErrorDetails (take 200 error_text)])
                          | Some m \<Rightarrow>
                              (Inl (OtherException m),
                               [WarnStatus (attempt + 1) max_retries (status resp)]))
                    else (Inr None, [WarnStatus (attempt + 1) max_retries (status resp)])))"

text \<open>The two \<^verbatim>\<open>except\<close> clauses. An exception raised by the logger inside a clause
  leaves the function.\<close>

definition handle_exc ::
  "(string \<Rightarrow> string option) \<Rightarrow> nat \<Rightarrow> nat \<Rightarrow> exc \<Rightarrow> attempt_end \<times> log_event list" where
  "handle_exc lg max_retries attempt e =
     (if is_transient e
      then (if attempt = max_retries - 1
            then (case lg (exc_text e) of
                    None \<Rightarrow> (Return (JList []), [ErrorExhausted max_retries e])
                  | Some m \<Rightarrow> (Raise (MarkupError m), []))
            else (Continue, [WarnBackoff (attempt + 1) (2 ^ attempt), Sleep (2 ^ attempt)]))
      else (case lg (exc_text e) of
              None \<Rightarrow> (Return (JList []), [ErrorUnexpected e])
            | Some m \<Rightarrow> (Raise (MarkupError m), [])))"

definition one_attempt ::
  "(string \<Rightarrow> string option) \<Rightarrow> bool \<Rightarrow> string \<Rightarrow> (string \<times> json) list \<Rightarrow> (nat \<Rightarrow> outcome)
     \<Rightarrow> nat \<Rightarrow> nat \<Rightarrow> attempt_end \<times> log_event list" where
  "one_attempt lg is_get u params outs max_retries attempt =
     (case try_request lg outs max_retries attempt of
        (Inl e, evs) \<Rightarrow>
          (case handle_exc lg max_retries attempt e of
             (r, evs') \<Rightarrow> (r, Request is_get u params attempt # evs @ evs'))
      | (Inr (Some v), evs) \<Rightarrow> (Return v, Request is_get u params attempt # evs)
      | (Inr None, evs) \<Rightarrow> (Continue, Request is_get u params attempt # evs))"

text \<open>
  \<^verbatim>\<open>for attempt in range(max_retries)\<close>, from \<open>attempt\<close> on. A loop that ends without
  a \<^verbatim>\<open>return\<close> makes the function return \<^verbatim>\<open>None\<close>.
\<close>

function attempts_from ::
  "(string \<Rightarrow> string option) \<Rightarrow> bool \<Rightarrow> string \<Rightarrow> (string \<times> json) list \<Rightarrow> (nat \<Rightarrow> outcome)
     \<Rightarrow> nat \<Rightarrow> nat \<Rightarrow> (error + json) \<times> log_event list" where
  "attempts_from lg is_get u params outs max_retries attempt =
     (if attempt < max_retries
      then (case one_attempt lg is_get u params outs max_retries attempt of
              (Return v, evs) \<Rightarrow> (Inr v, evs)
            | (Raise err, evs) \<Rightarrow> (Inl err, evs)
            | (Continue, evs) \<Rightarrow>
                (case attempts_from lg is_get u params outs max_retries (Suc attempt) of
                   (r, evs') \<Rightarrow> (r, evs @ evs')))
      else (Inr JNull, []))"
  by pat_completeness auto
termination
  by (relation "measure (\<lambda>(lg, is_get, u, params, outs, max_retries, attempt).
        max_retries - attempt)") auto

declare attempts_from.simps [simp del]

text \<open>
  \<^verbatim>\<open>request_with_retry(method, url, params, max_retries)\<close>; \<open>outs\<close> gives what the
  server and the network do at each attempt. The call raises \<^verbatim>\<open>RuntimeError\<close> when the
  session was never opened. The semaphore delays the call and changes nothing else; it
  is not modelled.
\<close>

definition request_with_retry ::
  "session_manager \<Rightarrow> string \<Rightarrow> string \<Rightarrow> (string \<times> json) list \<Rightarrow> (nat \<Rightarrow> outcome) \<Rightarrow> nat
     \<Rightarrow> (error + json) \<times> log_event list" where
  "request_with_retry sm http_method u params outs max_retries =
     (if \<not> session_open sm then (Inl RuntimeError, [])
      else attempts_from (logger sm) (map upper_char http_method = ''GET'') u params outs
             max_retries 0)"

subsection \<open>The cases of the retry policy\<close>

text \<open>
  The four kinds of attempt the retry policy distinguishes: a 200/201 response whose body
  parses, a response with another status, a connection or timeout error, and any other
  exception. An exception raised while the body is read counts like one raised by the
  request.
\<close>

datatype verdict = Success json | BadStatus int string | Transient exc | Unexpected exc

definition exc_verdict :: "exc \<Rightarrow> verdict" where
  "exc_verdict e = (if is_transient e then Transient e else Unexpected e)"

definition classify :: "outcome \<Rightarrow> verdict" where
  "classify out =
     (case out of
        Inl e \<Rightarrow> exc_verdict e
      | Inr resp \<Rightarrow>
          if status resp = 200 \<or> status resp = 201
          then (case json_body resp of Inl e \<Rightarrow> exc_verdict e | Inr j \<Rightarrow> Success j)
          else (case text_body resp of Inl e \<Rightarrow> exc_verdict e
                | Inr t \<Rightarrow> BadStatus (status resp) t))"

fun is_retried :: "verdict \<Rightarrow> bool" where
  "is_retried (BadStatus s t) = True"
| "is_retried (Transient e) = True"
| "is_retried _ = False"

text \<open>What attempt \<open>i\<close> leaves in the log when the loop goes on to attempt \<open>i + 1\<close>:
  after another status a warning, after a connection or timeout error a warning and a
  sleep of \<open>2 ^ i\<close> seconds.\<close>

fun retry_events ::
  "bool \<Rightarrow> string \<Rightarrow> (string \<times> json) list \<Rightarrow> nat \<Rightarrow> nat \<Rightarrow> verdict \<Rightarrow> log_event list" where
  "retry_events g u p m i (BadStatus s t) = [Request g u p i, WarnStatus (i + 1) m s]"
| "retry_events g u p m i (Transient e) =
     [Request g u p i, WarnBackoff (i + 1) (2 ^ i), Sleep (2 ^ i)]"
| "retry_events g u p m i _ = [Request g u p i]"

definition retried_log ::
  "bool \<Rightarrow> string \<Rightarrow> (string \<times> json) list \<Rightarrow> (nat \<Rightarrow> outcome) \<Rightarrow> nat \<Rightarrow> nat \<Rightarrow> nat
     \<Rightarrow> log_event list" where
  "retried_log g u p outs m a k =
     concat (map (\<lambda>i. retry_events g u p m i (classify (outs i))) [a..<k])"

section \<open>core/extractor.py\<close>

text \<open>The dictionary \<^verbatim>\<open>self.stats\<close>.\<close>

record statistics =
  layouts_processed :: nat
  requests_made :: nat
  request_errors :: nat
  retries :: nat
  cache_hits :: nat
  cache_misses :: nat
  start_time :: "real option"
  end_time :: "real option"

text \<open>
  The fields of \<^verbatim>\<open>LiferayUrlExtractor\<close> that the crawl reads and writes. The visited
  set \<^verbatim>\<open>processed_layouts\<close> holds the formatted keys; \<open>transport_log\<close> collects the
  effects of the session manager's calls.
\<close>

record extractor =
  liferay_url :: string
  group_id :: string
  all_pages :: "page list"
  processed_layouts :: "string set"
  site_structure :: json
  stats :: statistics
  session_manager :: session_manager
  cache_manager :: cache_manager
  transport_log :: "log_event list"

text \<open>\<^verbatim>\<open>f"{parent_layout_id}-{is_private}"\<close> and
  \<^verbatim>\<open>f"layout_{self.group_id}_{parent_layout_id}_{is_private}"\<close>.\<close>

definition layout_key :: "int \<Rightarrow> bool \<Rightarrow> string" where
  "layout_key parent_layout_id is_private = str_int parent_layout_id @ ''-'' @ str_bool is_private"

definition layout_cache_key :: "string \<Rightarrow> int \<Rightarrow> bool \<Rightarrow> string" where
  "layout_cache_key gid parent_layout_id is_private =
     ''layout_'' @ gid @ ''_'' @ str_int parent_layout_id @ ''_'' @ str_bool is_private"

text \<open>What the environment supplies to one fetch: the two clock readings of the cache
  and the outcome of each HTTP attempt.\<close>

record fetch_env =
  now_check :: real
  now_store :: real
  outcomes :: "nat \<Rightarrow> outcome"

text \<open>The inner function \<^verbatim>\<open>fetch_layouts\<close> of \<^verbatim>\<open>get_layouts\<close>.\<close>

definition fetch_layouts ::
  "(nat \<Rightarrow> outcome) \<Rightarrow> int \<Rightarrow> bool \<Rightarrow> extractor \<Rightarrow> (error + json) \<times> extractor" where
  "fetch_layouts outs parent_layout_id is_private self =
     (let self1 = self\<lparr>stats := (stats self)\<lparr>requests_made := requests_made (stats self) + 1\<rparr>\<rparr>;
          u = liferay_url self1 @ ''/api/jsonws/layout/get-layouts'';
          params = [(''groupId'', JStr (group_id self1)),
                    (''privateLayout'', JStr (map lower_char (str_bool is_private))),
                    (''parentLayoutId'', JInt parent_layout_id)]
      in case request_with_retry (session_manager self1) ''POST'' u params outs 3 of
           (result, evs) \<Rightarrow> (result, self1\<lparr>transport_log := transport_log self1 @ evs\<rparr>))"

text \<open>
  \<^verbatim>\<open>get_layouts\<close> up to its first \<^verbatim>\<open>await\<close>: the membership test and the insertion
  into the visited set. The flag tells whether the call has returned \<^verbatim>\<open>[]\<close>.
\<close>

definition get_layouts_enter :: "extractor \<Rightarrow> int \<Rightarrow> bool \<Rightarrow> bool \<times> extractor" where
  "get_layouts_enter self parent_layout_id is_private =
     (if layout_key parent_layout_id is_private \<in> processed_layouts self
      then (True, self)
      else (False, self\<lparr>processed_layouts :=
                          insert (layout_key parent_layout_id is_private) (processed_layouts self)\<rparr>))"

text \<open>The rest of \<^verbatim>\<open>get_layouts\<close>: the cached fetch and the cache counters.\<close>

definition get_layouts_resume ::
  "fetch_env \<Rightarrow> extractor \<Rightarrow> int \<Rightarrow> bool \<Rightarrow> (error + json) \<times> extractor" where
  "get_layouts_resume env self parent_layout_id is_private =
     (case get_or_fetch (cache_manager self) (now_check env) (now_store env)
             (layout_cache_key (group_id self) parent_layout_id is_private)
             (fetch_layouts (outcomes env) parent_layout_id is_private) self of
        (Inl e, cm, self') \<Rightarrow> (Inl e, self'\<lparr>cache_manager := cm\<rparr>)
      | (Inr (layouts, from_cache), cm, self') \<Rightarrow>
          (Inr layouts,
           self'\<lparr>cache_manager := cm,
                 stats := (if from_cache
                           then (stats self')\<lparr>cache_hits := cache_hits (stats self') + 1\<rparr>
                           else (stats self')\<lparr>cache_misses := cache_misses (stats self') + 1\<rparr>)\<rparr>))"

definition get_layouts ::
  "fetch_env \<Rightarrow> extractor \<Rightarrow> int \<Rightarrow> bool \<Rightarrow> (error + json) \<times> extractor" where
  "get_layouts env self parent_layout_id is_private =
     (case get_layouts_enter self parent_layout_id is_private of
        (True, self') \<Rightarrow> (Inr (JList []), self')
      | (False, self') \<Rightarrow> get_layouts_resume env self' parent_layout_id is_private)"

text \<open>The counters as \<^verbatim>\<open>__init__\<close> creates them.\<close>

definition stats_init :: statistics where
  "stats_init = \<lparr>layouts_processed = 0, requests_made = 0, request_errors = 0, retries = 0,
                  cache_hits = 0, cache_misses = 0, start_time = None, end_time = None\<rparr>"

text \<open>
  \<^verbatim>\<open>LiferayUrlExtractor.__init__\<close>. \<open>cache_key\<close> is the MD5 fingerprint that
  \<^verbatim>\<open>generate_cache_key\<close> computes from the URL and the group, and \<open>db\<close> the content
  of the cache database on disk; \<open>lg\<close> is the logger handed to the session manager.
\<close>

definition extractor_init ::
  "string \<Rightarrow> string \<Rightarrow> (string \<Rightarrow> string option) \<Rightarrow> nat \<Rightarrow> int \<Rightarrow> string
     \<Rightarrow> (string \<rightharpoonup> cache_entry) \<Rightarrow> extractor" where
  "extractor_init url gid lg max_concurrent_requests cache_ttl cache_key db =
     \<lparr>liferay_url = url, group_id = gid, all_pages = [], processed_layouts = {},
      site_structure = JDict [(''public'', JDict []), (''private'', JDict [])],
      stats = stats_init,
      session_manager = \<lparr>session_open = False, max_concurrent = max_concurrent_requests,
                         logger = lg\<rparr>,
      cache_manager = cache_manager_init cache_ttl cache_key db,
      transport_log = []\<rparr>"

subsection \<open>Cooperative scheduling of the expansion tasks\<close>

text \<open>
  The expansion tasks run on one event loop: a task runs without interruption between
  two \<^verbatim>\<open>await\<close>s. A call of \<^verbatim>\<open>get_layouts\<close> is therefore two steps, \<open>Enter\<close>
  (test and insertion) and \<open>Resume\<close> (the fetch), and any steps of other tasks may
  come between them. \<open>Spawn\<close> adds a call for any key at any time, as the recursive
  expansion does for each child. \<open>issued\<close> lists the keys whose fetch has been started.
  The fetch suspends several times itself (the semaphore, the network, the back-off); it
  is one step here, since only the start of a fetch is counted.
\<close>

datatype task = Waiting int bool | Claimed int bool | Done "error + json"

datatype action = Spawn int bool | Enter nat | Resume nat fetch_env

record sched =
  ext :: extractor
  tasks :: "task list"
  issued :: "(int \<times> bool) list"

fun exec :: "sched \<Rightarrow> action \<Rightarrow> sched" where
  "exec s (Spawn p b) = s\<lparr>tasks := tasks s @ [Waiting p b]\<rparr>"
| "exec s (Enter i) =
     (if i < length (tasks s)
      then (case tasks s ! i of
              Waiting p b \<Rightarrow>
                (case get_layouts_enter (ext s) p b of
                   (True, e) \<Rightarrow> s\<lparr>ext := e, tasks := (tasks s)[i := Done (Inr (JList []))]\<rparr>
                 | (False, e) \<Rightarrow> s\<lparr>ext := e, tasks := (tasks s)[i := Claimed p b]\<rparr>)
            | _ \<Rightarrow> s)
      else s)"
| "exec s (Resume i env) =
     (if i < length (tasks s)
      then (case tasks s ! i of
              Claimed p b \<Rightarrow>
                (case get_layouts_resume env (ext s) p b of
                   (r, e) \<Rightarrow> s\<lparr>ext := e, tasks := (tasks s)[i := Done r],
                               issued := issued s @ [(p, b)]\<rparr>)
            | _ \<Rightarrow> s)
      else s)"

definition run :: "sched \<Rightarrow> action list \<Rightarrow> sched" where
  "run s as = foldl exec s as"

text \<open>The start of a run: no fetch is in flight and none has been issued. The visited
  set may hold the keys restored from a checkpoint.\<close>

fun is_claimed :: "task \<Rightarrow> bool" where
  "is_claimed (Claimed p b) = True"
| "is_claimed _ = False"

definition run_start :: "sched \<Rightarrow> bool" where
  "run_start s = (issued s = [] \<and> filter is_claimed (tasks s) = [])"

text \<open>
  For a formatted key \<open>k\<close>: the calls that have claimed \<open>k\<close> and not yet fetched,
  plus the fetches already issued for \<open>k\<close>.
\<close>

fun claimed_with :: "string \<Rightarrow> task \<Rightarrow> bool" where
  "claimed_with k (Claimed p b) = (layout_key p b = k)"
| "claimed_with k _ = False"

definition in_flight :: "string \<Rightarrow> sched \<Rightarrow> nat" where
  "in_flight k s = length (filter (claimed_with k) (tasks s))
     + length (filter (\<lambda>pb. layout_key (fst pb) (snd pb) = k) (issued s))"

definition dedup_inv :: "sched \<Rightarrow> bool" where
  "dedup_inv s = (\<forall>k. in_flight k s \<le> (if k \<in> processed_layouts (ext s) then 1 else 0))"

section \<open>utils/helpers.py\<close>

text \<open>
  The checkpoint is the dictionary with the four keys \<^verbatim>\<open>all_pages\<close>,
  \<^verbatim>\<open>processed_layouts\<close>, \<^verbatim>\<open>stats\<close> and \<^verbatim>\<open>site_structure\<close>. The file holds its JSON
  text; \<^verbatim>\<open>json.load\<close> of what \<^verbatim>\<open>json.dump\<close> wrote returns an equal dictionary, so
  a well-written file is identified with the dictionary, and \<open>Corrupt\<close> is a file that
  \<^verbatim>\<open>json.load\<close> rejects.
\<close>

record checkpoint =
  ck_all_pages :: "page list"
  ck_processed_layouts :: "string list"
  ck_stats :: statistics
  ck_site_structure :: json

datatype state_file = Corrupt | Document checkpoint

text \<open>How the write goes: it succeeds, \<^verbatim>\<open>open\<close> raises (the file is untouched), or
  \<^verbatim>\<open>json.dump\<close> raises after \<^verbatim>\<open>open\<close> has truncated the file.\<close>

datatype write_outcome = WriteOk | OpenFails | DumpFails

text \<open>
  \<^verbatim>\<open>save_state\<close>. \<open>list_of\<close> is \<^verbatim>\<open>list(processed_layouts)\<close>: the order in which Python
  iterates the set is not specified.
\<close>

definition save_state ::
  "(string set \<Rightarrow> string list) \<Rightarrow> write_outcome \<Rightarrow> (string \<rightharpoonup> state_file) \<Rightarrow> string \<Rightarrow> page list
     \<Rightarrow> string set \<Rightarrow> statistics \<Rightarrow> json \<Rightarrow> bool \<times> (string \<rightharpoonup> state_file)" where
  "save_state list_of io fs file_path pages visited st tree =
     (let state = \<lparr>ck_all_pages = pages, ck_processed_layouts = list_of visited,
                   ck_stats = st, ck_site_structure = tree\<rparr>
      in case io of
           WriteOk \<Rightarrow> (True, fs(file_path \<mapsto> Document state))
         | OpenFails \<Rightarrow> (False, fs)
         | DumpFails \<Rightarrow> (False, fs(file_path \<mapsto> Corrupt)))"

text \<open>\<^verbatim>\<open>load_state\<close>; \<open>read_ok\<close> is false when opening or reading the file raises.\<close>

definition load_state :: "bool \<Rightarrow> (string \<rightharpoonup> state_file) \<Rightarrow> string \<Rightarrow> checkpoint option" where
  "load_state read_ok fs file_path =
     (case fs file_path of
        None \<Rightarrow> None
      | Some c \<Rightarrow>
          (if \<not> read_ok then None
           else (case c of Corrupt \<Rightarrow> None | Document state \<Rightarrow> Some state)))"

definition convert_processed_layouts :: "string list \<Rightarrow> string set" where
  "convert_processed_layouts layouts_list = set layouts_list"

section \<open>exporters/txt\_exporter.py\<close>


text \<open>The lines \<^verbatim>\<open>TXTExporter.export\<close> writes, in order, each with its newline. The
  pages are the dictionaries \<^verbatim>\<open>Page.to_dict\<close> builds, so the key \<^verbatim>\<open>url\<close> is present;
  Python's \<^verbatim>\<open>sorted\<close> on strings is the lexicographic order on character codes.\<close>

definition txt_lines :: "page list \<Rightarrow> string list" where
  "txt_lines pages =
     map (\<lambda>u. (if endswith_slash u then butlast u else u) @ [CHR 0x0A])
       (sort (map page_url pages))"


section \<open>core/extractor.py: start-up and checkpoints\<close>

text \<open>The restoration of a loaded checkpoint in \<^verbatim>\<open>initialize_session\<close>.\<close>

definition restore_state :: "checkpoint \<Rightarrow> extractor \<Rightarrow> extractor" where
  "restore_state state self =
     self\<lparr>all_pages := ck_all_pages state,
          processed_layouts := convert_processed_layouts (ck_processed_layouts state),
          stats := ck_stats state,
          site_structure := ck_site_structure state\<rparr>"

text \<open>
  \<^verbatim>\<open>initialize_session\<close>: the HTTP session is opened, and with \<open>resume_extraction\<close> a
  checkpoint that loads is restored.
\<close>

definition initialize_session ::
  "bool \<Rightarrow> bool \<Rightarrow> (string \<rightharpoonup> state_file) \<Rightarrow> string \<Rightarrow> extractor \<Rightarrow> extractor" where
  "initialize_session resume_extraction read_ok fs state_file self =
     (let self1 = self\<lparr>session_manager := (session_manager self)\<lparr>session_open := True\<rparr>\<rparr>
      in if resume_extraction
         then (case load_state read_ok fs state_file of
                 Some state \<Rightarrow> restore_state state self1
               | None \<Rightarrow> self1)
         else self1)"

text \<open>\<^verbatim>\<open>save_current_state\<close> passes the extractor's four fields to \<open>save_state\<close>.\<close>

definition save_current_state ::
  "(string set \<Rightarrow> string list) \<Rightarrow> write_outcome \<Rightarrow> (string \<rightharpoonup> state_file) \<Rightarrow> string \<Rightarrow> extractor
     \<Rightarrow> bool \<times> (string \<rightharpoonup> state_file)" where
  "save_current_state list_of io fs state_file self =
     save_state list_of io fs state_file (all_pages self) (processed_layouts self)
       (stats self) (site_structure self)"

section \<open>Example values\<close>

text \<open>A console that prints every line, and one that meets the closing tag \<^verbatim>\<open>[/b]\<close>
  with no open tag: in a response text, and in the text of the error raised for it, which
  quotes the tag. The positions are those of the tag in the two log lines, after the
  time, the level and the fixed words of the message.\<close>

definition plain_console :: "string \<Rightarrow> string option" where
  "plain_console t = None"

definition markup_console :: "string \<Rightarrow> string option" where
  "markup_console t =
     (if t = ''x [/b] y''
      then Some ''closing tag '[/b]' at position 39 doesn't match any open tag''
      else if t = ''closing tag '[/b]' at position 39 doesn't match any open tag''
      then Some ''closing tag '[/b]' at position 49 doesn't match any open tag''
      else None)"

text \<open>An extractor after \<^verbatim>\<open>__init__\<close> (24 hours of cache, empty database) and
  \<^verbatim>\<open>initialize_session\<close> without a checkpoint.\<close>

definition fresh_extractor :: extractor where
  "fresh_extractor =
     initialize_session False True Map.empty ''state.json''
       (extractor_init ''http://host'' ''20'' plain_console 10 24 ''site'' Map.empty)"

text \<open>Attempts: a 200 response with a body, a 500 response, a connection error.\<close>

definition ok_outcome :: "json \<Rightarrow> outcome" where
  "ok_outcome j = Inr \<lparr>status = 200, json_body = Inr j, text_body = Inr []\<rparr>"

definition status_outcome :: "int \<Rightarrow> string \<Rightarrow> outcome" where
  "status_outcome s t =
     Inr \<lparr>status = s, json_body = Inl (OtherException ''not JSON''), text_body = Inr t\<rparr>"

text \<open>Two failed attempts (a connection error, then a 500), then a success.\<close>

definition fails_twice :: "json \<Rightarrow> nat \<Rightarrow> outcome" where
  "fails_twice j n =
     (if n = 0 then Inl (ClientError ''connection reset'')
      else if n = 1 then status_outcome 500 ''busy''
      else ok_outcome j)"

definition example_env :: "json \<Rightarrow> fetch_env" where
  "example_env j = \<lparr>now_check = 100, now_store = 101, outcomes = fails_twice j\<rparr>"

definition example_page :: "string \<Rightarrow> page" where
  "example_page u = \<lparr>page_id = JInt 1, page_path = u, page_url = u, page_title = JStr ''t'',
                      page_parent_id = JInt 0, page_private = False\<rparr>"

text \<open>Two calls of \<^verbatim>\<open>get_layouts(0, False)\<close> waiting to run on a fresh extractor.\<close>

definition two_calls :: sched where
  "two_calls = \<lparr>ext = fresh_extractor, tasks = [Waiting 0 False, Waiting 0 False], issued = []\<rparr>"

text \<open>A response body with one layout.\<close>

definition home_layouts :: json where
  "home_layouts = JList [JDict [(''layoutId'', JInt 5), (''friendlyURL'', JStr ''/home'')]]"

text \<open>The HTTP calls among the transport's effects.\<close>

fun is_request :: "log_event \<Rightarrow> bool" where
  "is_request (Request g u p i) = True"
| "is_request _ = False"

section \<open>Properties\<close>

subsection \<open>Cache validity\<close>



subsection \<open>Cache round trip\<close>






subsection \<open>Retry policy\<close>

text \<open>One pass through the loop body, by the kind of attempt, when the logger prints
  every line.\<close>

lemma attempt_by_verdict:
  assumes "\<And>t. lg t = None"
  shows "one_attempt lg g u p outs m a =
     (case classify (outs a) of
        Success j \<Rightarrow> (Return j, [Request g u p a])
      | BadStatus s t \<Rightarrow>
          (if a = m - 1
           then (Return (JList []),
                 [Request g u p a, WarnStatus (a + 1) m s, ErrorDetails (take 200 t)])
           else (Continue, [Request g u p a, WarnStatus (a + 1) m s]))
      | Transient e \<Rightarrow>
          (if a = m - 1 then (Return (JList []), [Request g u p a, ErrorExhausted m e])
           else (Continue, [Request g u p a, WarnBackoff (a + 1) (2 ^ a), Sleep (2 ^ a)]))
      | Unexpected e \<Rightarrow> (Return (JList []), [Request g u p a, ErrorUnexpected e]))"
    (is "_ = ?T (classify (outs a))")
proof -
  have h: "one_attempt lg g u p outs m a = ?T (exc_verdict e)"
    if "try_request lg outs m a = (Inl e, [])" for e
    using that assms
    by (cases "is_transient e") (simp_all add: one_attempt_def handle_exc_def exc_verdict_def)
  show ?thesis
  proof (cases "outs a")
    case (Inl e)
    then have "try_request lg outs m a = (Inl e, [])" by (simp add: try_request_def)
    from h [OF this] Inl show ?thesis by (simp add: classify_def)
  next
    case (Inr resp)
    show ?thesis
    proof (cases "status resp = 200 \<or> status resp = 201")
      case True
      show ?thesis
      proof (cases "json_body resp")
        case (Inl e)
        with Inr True have "try_request lg outs m a = (Inl e, [])"
          by (simp add: try_request_def)
        from h [OF this] Inr True Inl show ?thesis by (simp add: classify_def)
      next
        case (Inr j)
        with \<open>outs a = Inr resp\<close> True show ?thesis
          by (simp add: one_attempt_def try_request_def classify_def)
      qed
    next
      case False
      show ?thesis
      proof (cases "text_body resp")
        case (Inl e)
        with Inr False have "try_request lg outs m a = (Inl e, [])"
          by (simp add: try_request_def)
        from h [OF this] Inr False Inl show ?thesis by (simp add: classify_def)
      next
        case (Inr t)
        with \<open>outs a = Inr resp\<close> False assms show ?thesis
          by (simp add: one_attempt_def try_request_def classify_def)
      qed
    qed
  qed
qed

lemma attempts_from_retried:
  assumes "\<And>t. lg t = None"
    and "is_retried (classify (outs a))" and "Suc a < m"
  shows "attempts_from lg g u p outs m a =
           (fst (attempts_from lg g u p outs m (Suc a)),
            retry_events g u p m a (classify (outs a))
              @ snd (attempts_from lg g u p outs m (Suc a)))"
proof -
  from assms(3) have am: "a < m" and ne: "a \<noteq> m - 1" by arith+
  have unfold: "attempts_from lg g u p outs m a =
      (case one_attempt lg g u p outs m a of
         (Return v, evs) \<Rightarrow> (Inr v, evs)
       | (Raise err, evs) \<Rightarrow> (Inl err, evs)
       | (Continue, evs) \<Rightarrow>
           (case attempts_from lg g u p outs m (Suc a) of (r, evs') \<Rightarrow> (r, evs @ evs')))"
    using am by (subst attempts_from.simps) simp
  show ?thesis
  proof (cases "classify (outs a)")
    case (BadStatus s t)
    then have "one_attempt lg g u p outs m a = (Continue, [Request g u p a, WarnStatus (a + 1) m s])"
      using ne by (simp add: attempt_by_verdict [OF assms(1)])
    then show ?thesis unfolding unfold using BadStatus by (simp split: prod.splits)
  next
    case (Transient e)
    then have "one_attempt lg g u p outs m a
        = (Continue, [Request g u p a, WarnBackoff (a + 1) (2 ^ a), Sleep (2 ^ a)])"
      using ne by (simp add: attempt_by_verdict [OF assms(1)])
    then show ?thesis unfolding unfold using Transient by (simp split: prod.splits)
  next
    case (Success j)
    with assms(2) show ?thesis by simp
  next
    case (Unexpected e)
    with assms(2) show ?thesis by simp
  qed
qed

lemma attempts_from_prefix:
  assumes "\<And>t. lg t = None"
    and "a \<le> k" and "k < m"
    and "list_all (\<lambda>i. is_retried (classify (outs i))) [a..<k]"
  shows "attempts_from lg g u p outs m a =
           (fst (attempts_from lg g u p outs m k),
            retried_log g u p outs m a k @ snd (attempts_from lg g u p outs m k))"
  using assms(2-)
proof (induction k)
  case 0
  then show ?case by (simp add: retried_log_def)
next
  case (Suc k)
  show ?case
  proof (cases "a = Suc k")
    case True
    then show ?thesis by (simp add: retried_log_def)
  next
    case False
    with Suc.prems have ak: "a \<le> k" and km: "k < m"
      and pre: "list_all (\<lambda>i. is_retried (classify (outs i))) [a..<k]"
      and last: "is_retried (classify (outs k))"
      by (auto simp: list_all_iff)
    have step: "attempts_from lg g u p outs m k =
        (fst (attempts_from lg g u p outs m (Suc k)),
         retry_events g u p m k (classify (outs k))
           @ snd (attempts_from lg g u p outs m (Suc k)))"
      using attempts_from_retried [of lg outs k, OF assms(1) last] Suc.prems(2) by simp
    from Suc.IH [OF ak km pre] step ak show ?thesis
      by (simp add: retried_log_def)
  qed
qed

lemma attempts_from_return:
  "k < m \<Longrightarrow> one_attempt lg g u p outs m k = (Return v, evs) \<Longrightarrow>
     attempts_from lg g u p outs m k = (Inr v, evs)"
  by (subst attempts_from.simps) simp

lemma attempts_from_raise:
  "k < m \<Longrightarrow> one_attempt lg g u p outs m k = (Raise err, evs) \<Longrightarrow>
     attempts_from lg g u p outs m k = (Inl err, evs)"
  by (subst attempts_from.simps) simp

lemma attempts_from_continue:
  "k < m \<Longrightarrow> one_attempt lg g u p outs m k = (Continue, evs) \<Longrightarrow>
     attempts_from lg g u p outs m k =
       (fst (attempts_from lg g u p outs m (Suc k)),
        evs @ snd (attempts_from lg g u p outs m (Suc k)))"
  by (subst attempts_from.simps) (simp split: prod.splits)

text \<open>
  With an open session and a logger that prints every line, the call returns as the
  retry policy says. If the attempts before attempt \<open>k\<close> were all retried (another
  status, or a connection or timeout error), the call ends at attempt \<open>k\<close> as follows: a
  200/201 response returns its parsed body at once; on the last attempt another status
  logs the first 200 characters of the response text and returns the empty list, and a
  connection or timeout error returns the empty list; any other exception returns the
  empty list at attempt \<open>k\<close>. Each connection or timeout error before attempt \<open>k\<close> is
  followed by a sleep of \<open>2 ^ i\<close> seconds and each other status by no sleep.
\<close>

lemma request_with_retry_policy:
  assumes "session_open sm" and "\<And>t. logger sm t = None" and "k < max_retries"
    and "list_all (\<lambda>i. is_retried (classify (outs i))) [0..<k]"
  shows "(classify (outs k) = Success j \<longrightarrow>
         request_with_retry sm http_method u p outs max_retries =
           (Inr j, retried_log (map upper_char http_method = ''GET'') u p outs max_retries 0 k
                   @ [Request (map upper_char http_method = ''GET'') u p k]))
    \<and> (classify (outs k) = BadStatus s t \<and> k = max_retries - 1 \<longrightarrow>
         request_with_retry sm http_method u p outs max_retries =
           (Inr (JList []), retried_log (map upper_char http_method = ''GET'') u p outs max_retries 0 k
                   @ [Request (map upper_char http_method = ''GET'') u p k,
                      WarnStatus (k + 1) max_retries s, ErrorDetails (take 200 t)]))
    \<and> (classify (outs k) = Transient e \<and> k = max_retries - 1 \<longrightarrow>
         request_with_retry sm http_method u p outs max_retries =
           (Inr (JList []), retried_log (map upper_char http_method = ''GET'') u p outs max_retries 0 k
                   @ [Request (map upper_char http_method = ''GET'') u p k,
                      ErrorExhausted max_retries e]))
    \<and> (classify (outs k) = Unexpected e \<longrightarrow>
         request_with_retry sm http_method u p outs max_retries =
           (Inr (JList []), retried_log (map upper_char http_method = ''GET'') u p outs max_retries 0 k
                   @ [Request (map upper_char http_method = ''GET'') u p k, ErrorUnexpected e]))"
proof -
  let ?g = "map upper_char http_method = ''GET''"
  let ?lg = "logger sm"
  have pre: "attempts_from ?lg ?g u p outs max_retries 0 =
      (fst (attempts_from ?lg ?g u p outs max_retries k),
       retried_log ?g u p outs max_retries 0 k
         @ snd (attempts_from ?lg ?g u p outs max_retries k))"
    using attempts_from_prefix [of ?lg 0 k max_retries outs ?g u p] assms by simp
  have rw: "request_with_retry sm http_method u p outs max_retries =
      (fst (attempts_from ?lg ?g u p outs max_retries k),
       retried_log ?g u p outs max_retries 0 k
         @ snd (attempts_from ?lg ?g u p outs max_retries k))"
    using assms(1) pre by (simp add: request_with_retry_def)
  have c1: "classify (outs k) = Success j \<Longrightarrow>
      attempts_from ?lg ?g u p outs max_retries k = (Inr j, [Request ?g u p k])"
    using assms(3) by (intro attempts_from_return) (simp_all add: attempt_by_verdict [OF assms(2)])
  have c2: "classify (outs k) = BadStatus s t \<Longrightarrow> k = max_retries - 1 \<Longrightarrow>
      attempts_from ?lg ?g u p outs max_retries k =
        (Inr (JList []),
         [Request ?g u p k, WarnStatus (k + 1) max_retries s, ErrorDetails (take 200 t)])"
    using assms(3) by (intro attempts_from_return) (simp_all add: attempt_by_verdict [OF assms(2)])
  have c3: "classify (outs k) = Transient e \<Longrightarrow> k = max_retries - 1 \<Longrightarrow>
      attempts_from ?lg ?g u p outs max_retries k =
        (Inr (JList []), [Request ?g u p k, ErrorExhausted max_retries e])"
    using assms(3) by (intro attempts_from_return) (simp_all add: attempt_by_verdict [OF assms(2)])
  have c4: "classify (outs k) = Unexpected e \<Longrightarrow>
      attempts_from ?lg ?g u p outs max_retries k =
        (Inr (JList []), [Request ?g u p k, ErrorUnexpected e])"
    using assms(3) by (intro attempts_from_return) (simp_all add: attempt_by_verdict [OF assms(2)])
  show ?thesis
    unfolding rw using c1 c2 c3 c4 by auto
qed

text \<open>Three attempts that each meet a 500 response whose text holds the closing tag.\<close>

lemma one_attempt_markup:
  "one_attempt markup_console False u p (\<lambda>n. status_outcome 500 ''x [/b] y'') 3 0
     = (Continue, [Request False u p 0, WarnStatus 1 3 500])"
  "one_attempt markup_console False u p (\<lambda>n. status_outcome 500 ''x [/b] y'') 3 (Suc 0)
     = (Continue, [Request False u p 1, WarnStatus 2 3 500])"
  "one_attempt markup_console False u p (\<lambda>n. status_outcome 500 ''x [/b] y'') 3 (Suc (Suc 0))
     = (Raise (MarkupError ''closing tag '[/b]' at position 49 doesn't match any open tag''),
        [Request False u p 2, WarnStatus 3 3 500])"
  by (simp_all add: one_attempt_def try_request_def handle_exc_def status_outcome_def
      markup_console_def)

text \<open>
  Claim C2. The claim says that the call never raises on a transient failure, and that
  another status on the final attempt logs the truncated response text and returns the
  empty list. In the code the log line passes through the console's markup: for three
  500 responses whose text is \<^verbatim>\<open>x [/b] y\<close> the third attempt's call of
  \<^verbatim>\<open>logger.error\<close> raises inside the \<^verbatim>\<open>try\<close> block, the handler for other
  exceptions logs the error's text, which quotes the tag, and that call raises out of
  \<open>request_with_retry\<close>: the call ends with \<^verbatim>\<open>MarkupError\<close>, not with the empty list.
\<close>

theorem request_with_retry_raises:
  "request_with_retry \<lparr>session_open = True, max_concurrent = 10, logger = markup_console\<rparr>
       ''POST'' ''http://host/api/jsonws/layout/get-layouts'' []
       (\<lambda>n. status_outcome 500 ''x [/b] y'') 3
     = (Inl (MarkupError ''closing tag '[/b]' at position 49 doesn't match any open tag''),
        [Request False ''http://host/api/jsonws/layout/get-layouts'' [] 0, WarnStatus 1 3 500,
         Request False ''http://host/api/jsonws/layout/get-layouts'' [] 1, WarnStatus 2 3 500,
         Request False ''http://host/api/jsonws/layout/get-layouts'' [] 2, WarnStatus 3 3 500])"
proof -
  have g: "(map upper_char ''POST'' = ''GET'') = False"
    by (simp add: upper_char_def)
  let ?outs = "\<lambda>n::nat. status_outcome 500 ''x [/b] y''"
  let ?u = "''http://host/api/jsonws/layout/get-layouts''"
  have a2: "attempts_from markup_console False ?u [] ?outs 3 (Suc (Suc 0))
      = (Inl (MarkupError ''closing tag '[/b]' at position 49 doesn't match any open tag''),
         [Request False ?u [] 2, WarnStatus 3 3 500])"
    by (rule attempts_from_raise) (simp_all add: one_attempt_markup)
  have a1: "attempts_from markup_console False ?u [] ?outs 3 (Suc 0)
      = (Inl (MarkupError ''closing tag '[/b]' at position 49 doesn't match any open tag''),
         [Request False ?u [] 1, WarnStatus 2 3 500, Request False ?u [] 2, WarnStatus 3 3 500])"
    using attempts_from_continue [where m = 3 and u = ?u and p = "[]",
        OF _ one_attempt_markup(2)] a2 by simp
  have a0: "attempts_from markup_console False ?u [] ?outs 3 0
      = (Inl (MarkupError ''closing tag '[/b]' at position 49 doesn't match any open tag''),
         [Request False ?u [] 0, WarnStatus 1 3 500,
          Request False ?u [] 1, WarnStatus 2 3 500, Request False ?u [] 2, WarnStatus 3 3 500])"
    using attempts_from_continue [where m = 3 and u = ?u and p = "[]",
        OF _ one_attempt_markup(1)] a1 by simp
  then show ?thesis by (simp add: request_with_retry_def g)
qed

text \<open>The same three responses with a text that holds no tag, and a console that prints
  every line: the call returns the empty list.\<close>

lemma request_with_retry_plain:
  "request_with_retry \<lparr>session_open = True, max_concurrent = 10, logger = plain_console\<rparr>
       ''POST'' ''u'' [] (\<lambda>n. status_outcome 500 ''busy'') 3
     = (Inr (JList []),
        [Request False ''u'' [] 0, WarnStatus 1 3 500,
         Request False ''u'' [] 1, WarnStatus 2 3 500,
         Request False ''u'' [] 2, WarnStatus 3 3 500, ErrorDetails ''busy''])"
proof -
  let ?sm = "\<lparr>session_open = True, max_concurrent = 10, logger = plain_console\<rparr>"
  have g: "(map upper_char ''POST'' = ''GET'') = False"
    by (simp add: upper_char_def)
  have u2: "[0..<2] = [0, Suc 0]" by (simp add: upt_rec)
  have c: "classify (status_outcome 500 t) = BadStatus 500 t" for t
    by (simp add: classify_def status_outcome_def)
  show ?thesis
    using request_with_retry_policy [where sm = ?sm and k = 2 and max_retries = 3
        and outs = "\<lambda>n. status_outcome 500 ''busy''" and http_method = "''POST''" and u = "''u''"
        and p = "[]" and s = 500 and t = "''busy''"]
    by (simp add: g u2 c retried_log_def plain_console_def)
qed

subsection \<open>Visited keys\<close>

text \<open>
  Claim C9. A call of \<open>get_layouts\<close> whose key is in the visited set returns the empty
  list and leaves the whole extractor as it was (the counters, the record list, the site
  tree, the visited set, the cache manager and the transport log), whatever the cache
  clock and the server would have answered.
\<close>

theorem get_layouts_visited:
  "layout_key parent_layout_id is_private \<in> processed_layouts self \<Longrightarrow>
     get_layouts env self parent_layout_id is_private = (Inr (JList []), self)"
  by (simp add: get_layouts_def get_layouts_enter_def)

lemma layout_key_0_False: "layout_key 0 False = ''0-False''"
  by (simp add: layout_key_def str_int_def str_bool_def str_nat.simps digit_char_def)

theorem get_layouts_visited_witness:
  "layout_key 0 False \<in> processed_layouts (fresh_extractor\<lparr>processed_layouts := {''0-False''}\<rparr>)
   \<and> get_layouts (example_env JNull) (fresh_extractor\<lparr>processed_layouts := {''0-False''}\<rparr>) 0 False
       = (Inr (JList []), fresh_extractor\<lparr>processed_layouts := {''0-False''}\<rparr>)"
  using get_layouts_visited [of 0 False "fresh_extractor\<lparr>processed_layouts := {''0-False''}\<rparr>"
      "example_env JNull"]
  by (simp add: layout_key_0_False)

subsection \<open>One fetch per key\<close>

lemma length_filter_update:
  "i < length xs \<Longrightarrow>
     length (filter P (xs[i := y])) + (if P (xs ! i) then 1 else 0)
       = length (filter P xs) + (if P y then 1 else 0)"
proof (induction xs arbitrary: i)
  case Nil
  then show ?case by simp
next
  case (Cons x xs)
  then show ?case by (cases i) auto
qed

lemma get_or_fetch_world:
  "get_or_fetch cm t1 t2 k f w = (r, cm', w') \<Longrightarrow> w' = w \<or> w' = snd (f w)"
  by (auto simp: get_or_fetch_def fetch_and_store_def Let_def
      split: option.splits if_splits prod.splits sum.splits)

lemma fetch_layouts_visited:
  "processed_layouts (snd (fetch_layouts outs p b self)) = processed_layouts self"
  by (simp add: fetch_layouts_def Let_def split: prod.splits)

lemma get_layouts_resume_visited:
  "get_layouts_resume env self p b = (r, self') \<Longrightarrow>
     processed_layouts self' = processed_layouts self"
  unfolding get_layouts_resume_def
  by (auto split: prod.splits sum.splits dest!: get_or_fetch_world simp: fetch_layouts_visited)

lemma run_start_inv: "run_start s \<Longrightarrow> dedup_inv s"
proof -
  assume a: "run_start s"
  have "filter (claimed_with k) (tasks s) = []" for k
  proof -
    have "\<not> claimed_with k t" if "t \<in> set (tasks s)" for t
    proof -
      from a that have "\<not> is_claimed t"
        by (auto simp: run_start_def filter_empty_conv)
      then show ?thesis by (cases t) auto
    qed
    then show ?thesis by (simp add: filter_empty_conv)
  qed
  with a show ?thesis by (simp add: dedup_inv_def in_flight_def run_start_def)
qed

lemma exec_inv: "dedup_inv s \<Longrightarrow> dedup_inv (exec s a)"
proof (cases a)
  case (Spawn p b)
  assume "dedup_inv s"
  then show ?thesis using Spawn by (simp add: dedup_inv_def in_flight_def)
next
  case (Enter i)
  assume inv: "dedup_inv s"
  show ?thesis
  proof (cases "i < length (tasks s)")
    case False
    then show ?thesis using Enter inv by simp
  next
    case True
    show ?thesis
    proof (cases "tasks s ! i")
      case (Waiting p b)
      have upd: "length (filter (claimed_with k) ((tasks s)[i := y]))
                   = length (filter (claimed_with k) (tasks s)) + (if claimed_with k y then 1 else 0)" for k y
        using length_filter_update [OF True, of "claimed_with k" y] Waiting by simp
      show ?thesis
      proof (cases "layout_key p b \<in> processed_layouts (ext s)")
        case True
        then show ?thesis using Enter \<open>i < length (tasks s)\<close> Waiting inv upd
          by (simp add: get_layouts_enter_def dedup_inv_def in_flight_def)
      next
        case False
        have ex: "exec s a = s\<lparr>ext := (ext s)\<lparr>processed_layouts :=
                      insert (layout_key p b) (processed_layouts (ext s))\<rparr>,
                    tasks := (tasks s)[i := Claimed p b]\<rparr>"
          using Enter \<open>i < length (tasks s)\<close> Waiting False
          by (simp add: get_layouts_enter_def)
        have "in_flight k (exec s a)
                \<le> (if k \<in> processed_layouts (ext (exec s a)) then 1 else 0)" for k
        proof (cases "k = layout_key p b")
          case True
          from inv have "in_flight (layout_key p b) s
              \<le> (if layout_key p b \<in> processed_layouts (ext s) then 1 else 0)"
            unfolding dedup_inv_def by blast
          with False have "in_flight (layout_key p b) s = 0" by simp
          then show ?thesis using True ex upd [of k "Claimed p b"]
            by (simp add: in_flight_def)
        next
          case neq: False
          from inv have "in_flight k s \<le> (if k \<in> processed_layouts (ext s) then 1 else 0)"
            unfolding dedup_inv_def by blast
          then show ?thesis using neq ex upd [of k "Claimed p b"]
            by (auto simp: in_flight_def)
        qed
        then show ?thesis by (simp add: dedup_inv_def)
      qed
    next
      case (Claimed p b)
      then show ?thesis using Enter True inv by simp
    next
      case (Done r)
      then show ?thesis using Enter True inv by simp
    qed
  qed
next
  case (Resume i env)
  assume inv: "dedup_inv s"
  show ?thesis
  proof (cases "i < length (tasks s)")
    case False
    then show ?thesis using Resume inv by simp
  next
    case True
    show ?thesis
    proof (cases "tasks s ! i")
      case (Waiting p b)
      then show ?thesis using Resume True inv by simp
    next
      case (Done r)
      then show ?thesis using Resume True inv by simp
    next
      case (Claimed p b)
      obtain r e where res: "get_layouts_resume env (ext s) p b = (r, e)"
        by (cases "get_layouts_resume env (ext s) p b")
      have vis: "processed_layouts e = processed_layouts (ext s)"
        using get_layouts_resume_visited [OF res] .
      have upd: "length (filter (claimed_with k) ((tasks s)[i := Done r]))
                   + (if layout_key p b = k then 1 else 0)
                   = length (filter (claimed_with k) (tasks s))" for k
        using length_filter_update [OF True, of "claimed_with k" "Done r"] Claimed by simp
      have "in_flight k (exec s a) = in_flight k s" for k
        using Resume True Claimed res upd [of k] by (auto simp: in_flight_def split: if_splits)
      moreover have "processed_layouts (ext (exec s a)) = processed_layouts (ext s)"
        using Resume True Claimed res vis by simp
      ultimately show ?thesis using inv by (simp add: dedup_inv_def)
    qed
  qed
qed

lemma run_inv: "dedup_inv s \<Longrightarrow> dedup_inv (run s as)"
  unfolding run_def by (induction as arbitrary: s) (auto intro: exec_inv)

lemma count_list_filter: "count_list xs x = length (filter (\<lambda>y. y = x) xs)"
  by (induction xs) auto

lemma issued_le_in_flight:
  "count_list (issued s) (p, b) \<le> in_flight (layout_key p b) s"
proof -
  have "length (filter (\<lambda>y. y = (p, b)) xs)
          \<le> length (filter (\<lambda>pb. layout_key (fst pb) (snd pb) = layout_key p b) xs)" for xs
    by (induction xs) auto
  then show ?thesis by (simp add: in_flight_def count_list_filter trans_le_add2)
qed


text \<open>
  Claim C1. From the start of a run, whatever calls are spawned and however their steps
  are interleaved, the fetch for a key (parent layout, privacy flag) is issued at most
  once, and only for a key that is already in the visited set. The step before the
  first \<^verbatim>\<open>await\<close> leaves the key in the visited set, and on a key that is already
  there it returns the empty list with the extractor unchanged, so that call never
  reaches the fetch.
\<close>

theorem fetch_issued_at_most_once:
  assumes "run_start s"
  shows "count_list (issued (run s as)) (p, b) \<le> 1
         \<and> (count_list (issued (run s as)) (p, b) = 0
              \<or> layout_key p b \<in> processed_layouts (ext (run s as)))
         \<and> layout_key p b \<in> processed_layouts (snd (get_layouts_enter self p b))
         \<and> (layout_key p b \<in> processed_layouts self \<longrightarrow>
               get_layouts_enter self p b = (True, self))"
proof -
  have inv: "dedup_inv (run s as)"
    using assms by (intro run_inv run_start_inv)
  then have le: "in_flight (layout_key p b) (run s as)
          \<le> (if layout_key p b \<in> processed_layouts (ext (run s as)) then 1 else 0)"
    by (simp add: dedup_inv_def)
  from issued_le_in_flight [of "run s as" p b] le
  have "count_list (issued (run s as)) (p, b) \<le> 1
         \<and> (count_list (issued (run s as)) (p, b) = 0
              \<or> layout_key p b \<in> processed_layouts (ext (run s as)))"
    by (auto split: if_splits)
  then show ?thesis by (simp add: get_layouts_enter_def)
qed

theorem fetch_issued_at_most_once_witness:
  "run_start two_calls
   \<and> issued (run two_calls [Enter 0, Enter 1, Resume 0 (example_env JNull), Resume 1 (example_env JNull)])
       = [(0, False)]
   \<and> count_list (issued (run two_calls
          [Enter 0, Enter 1, Resume 0 (example_env JNull), Resume 1 (example_env JNull)])) (0, False) \<le> 1
   \<and> layout_key 0 False \<in> processed_layouts (fresh_extractor\<lparr>processed_layouts := {''0-False''}\<rparr>)
   \<and> get_layouts_enter (fresh_extractor\<lparr>processed_layouts := {''0-False''}\<rparr>) 0 False
       = (True, fresh_extractor\<lparr>processed_layouts := {''0-False''}\<rparr>)"
proof -
  have st: "run_start two_calls" by (simp add: run_start_def two_calls_def)
  have k: "layout_key 0 False = ''0-False''" by (rule layout_key_0_False)
  have e: "processed_layouts fresh_extractor = {}"
    by (simp add: fresh_extractor_def initialize_session_def extractor_init_def)
  have "issued (run two_calls [Enter 0, Enter 1, Resume 0 (example_env JNull), Resume 1 (example_env JNull)])
       = [(0, False)]"
    by (simp add: run_def two_calls_def get_layouts_enter_def k e case_prod_beta)
  with st fetch_issued_at_most_once [OF st,
      of "[Enter 0, Enter 1, Resume 0 (example_env JNull), Resume 1 (example_env JNull)]" 0 False
         "fresh_extractor\<lparr>processed_layouts := {''0-False''}\<rparr>"]
  show ?thesis by (simp add: k)
qed

subsection \<open>Checkpoint round trip\<close>

text \<open>
  The part of the round trip that \<open>save_state\<close>, \<open>load_state\<close> and
  \<open>convert_processed_layouts\<close> do themselves, with the file identified with the
  dictionary it holds: when \<open>save_state\<close> reports success, \<open>load_state\<close> returns the
  dictionary that was written, its visited list converts to the visited set whenever
  the list enumerates the set, and its record list is the original list.
\<close>

lemma save_load_dictionary:
  assumes "set (list_of visited) = visited"
    and "save_state list_of io fs file_path pages visited st tree = (True, fs')"
  shows "\<exists>state. load_state True fs' file_path = Some state
           \<and> convert_processed_layouts (ck_processed_layouts state) = visited
           \<and> ck_all_pages state = pages"
  using assms
  by (auto simp: save_state_def load_state_def convert_processed_layouts_def Let_def
      split: write_outcome.splits)

text \<open>At the level of the extractor: a checkpoint saved by \<open>save_current_state\<close> and
  resumed by \<open>initialize_session\<close> restores the record list and the visited set.\<close>

lemma resume_restores_state:
  assumes "set (list_of (processed_layouts self)) = processed_layouts self"
    and "save_current_state list_of io fs state_file self = (True, fs')"
  shows "all_pages (initialize_session True True fs' state_file other) = all_pages self
       \<and> processed_layouts (initialize_session True True fs' state_file other)
           = processed_layouts self"
proof -
  let ?state = "\<lparr>ck_all_pages = all_pages self,
                  ck_processed_layouts = list_of (processed_layouts self),
                  ck_stats = stats self, ck_site_structure = site_structure self\<rparr>"
  from assms(2) have "fs' = fs(state_file \<mapsto> Document ?state)"
    by (cases io) (simp_all add: save_current_state_def save_state_def)
  then have "load_state True fs' state_file = Some ?state"
    by (simp add: load_state_def)
  then show ?thesis
    using assms(1)
    by (simp add: initialize_session_def restore_state_def convert_processed_layouts_def)
qed

subsection \<open>Retries and the statistics\<close>

lemma fails_twice_request:
  "request_with_retry \<lparr>session_open = True, max_concurrent = 10, logger = lg\<rparr> ''POST'' u ps
       (fails_twice j) 3
     = (Inr j,
        [Request False u ps 0, WarnBackoff 1 1, Sleep 1,
         Request False u ps 1, WarnStatus 2 3 500,
         Request False u ps 2])"
proof -
  have g: "(map upper_char ''POST'' = ''GET'') = False"
    by (simp add: upper_char_def)
  have a0: "one_attempt lg False u ps (fails_twice j) 3 0
      = (Continue, [Request False u ps 0, WarnBackoff 1 1, Sleep 1])"
    by (simp add: one_attempt_def try_request_def handle_exc_def fails_twice_def)
  have a1: "one_attempt lg False u ps (fails_twice j) 3 (Suc 0)
      = (Continue, [Request False u ps 1, WarnStatus 2 3 500])"
    by (simp add: one_attempt_def try_request_def handle_exc_def fails_twice_def
        status_outcome_def)
  have a2: "one_attempt lg False u ps (fails_twice j) 3 (Suc (Suc 0))
      = (Return j, [Request False u ps 2])"
    by (simp add: one_attempt_def try_request_def handle_exc_def fails_twice_def
        ok_outcome_def)
  have b2: "attempts_from lg False u ps (fails_twice j) 3 (Suc (Suc 0))
      = (Inr j, [Request False u ps 2])"
    by (rule attempts_from_return) (simp_all add: a2)
  have b1: "attempts_from lg False u ps (fails_twice j) 3 (Suc 0)
      = (Inr j, [Request False u ps 1, WarnStatus 2 3 500, Request False u ps 2])"
    using attempts_from_continue [where m = 3, OF _ a1] b2 by simp
  have "attempts_from lg False u ps (fails_twice j) 3 0
     = (Inr j, [Request False u ps 0, WarnBackoff 1 1, Sleep 1,
            Request False u ps 1, WarnStatus 2 3 500, Request False u ps 2])"
    using attempts_from_continue [where m = 3, OF _ a0] b1 by simp
  then show ?thesis by (simp add: request_with_retry_def g)
qed

lemma get_layouts_fails_twice:
  "get_layouts (example_env j) fresh_extractor 0 False =
     (Inr j,
      fresh_extractor
        \<lparr>processed_layouts := {''0-False''},
         stats := stats_init\<lparr>requests_made := 1, cache_misses := 1\<rparr>,
         cache_manager := (cache_manager fresh_extractor)
           \<lparr>cache_db := [''site_layout_20_0_False'' \<mapsto>
                \<lparr>entry_time = Some 101, entry_content = Some j\<rparr>],
            cache_log := [CacheUpdated ''layout_20_0_False'']\<rparr>,
         transport_log :=
           [Request False ''http://host/api/jsonws/layout/get-layouts''
              [(''groupId'', JStr ''20''), (''privateLayout'', JStr ''false''),
               (''parentLayoutId'', JInt 0)] 0,
            WarnBackoff 1 1, Sleep 1,
            Request False ''http://host/api/jsonws/layout/get-layouts''
              [(''groupId'', JStr ''20''), (''privateLayout'', JStr ''false''),
               (''parentLayoutId'', JInt 0)] 1,
            WarnStatus 2 3 500,
            Request False ''http://host/api/jsonws/layout/get-layouts''
              [(''groupId'', JStr ''20''), (''privateLayout'', JStr ''false''),
               (''parentLayoutId'', JInt 0)] 2]\<rparr>)"
proof -
  have k: "layout_key 0 False = ''0-False''" by (rule layout_key_0_False)
  have ck: "layout_cache_key ''20'' 0 False = ''layout_20_0_False''"
    by (simp add: layout_cache_key_def str_int_def str_bool_def str_nat.simps digit_char_def)
  have lo: "map lower_char (str_bool False) = ''false''"
    by code_simp
  show ?thesis
    by (simp add: get_layouts_def get_layouts_enter_def get_layouts_resume_def k ck lo
        fresh_extractor_def initialize_session_def extractor_init_def example_env_def
        get_or_fetch_def fetch_and_store_def cache_manager_init_def fetch_layouts_def
        fails_twice_request stats_init_def Let_def)
qed

text \<open>
  Claim C3. A fetch whose request fails twice (a connection error, then a 500 response)
  and succeeds at the third attempt returns the body of the third response, after three
  HTTP calls. The counters \<open>retries\<close> and \<open>request_errors\<close> are still 0 afterwards
  and \<open>requests_made\<close> is 1: the two retries are not recorded.
\<close>

theorem retries_not_recorded:
  "fst (get_layouts (example_env home_layouts) fresh_extractor 0 False) = Inr home_layouts
   \<and> length (filter is_request
         (transport_log (snd (get_layouts (example_env home_layouts) fresh_extractor 0 False)))) = 3
   \<and> retries (stats (snd (get_layouts (example_env home_layouts) fresh_extractor 0 False))) = 0
   \<and> request_errors (stats (snd (get_layouts (example_env home_layouts) fresh_extractor 0 False))) = 0
   \<and> requests_made (stats (snd (get_layouts (example_env home_layouts) fresh_extractor 0 False))) = 1"
  by (simp add: get_layouts_fails_twice stats_init_def)


subsection \<open>Page records\<close>

lemma from_json_str:
  assumes "dict_get layout ''friendlyURL'' (JStr []) = JStr f"
  shows "from_json resolve layout parent_url is_private base_url =
     (case urljoin resolve base_url
             ((if parent_url = [] then [] else parent_url @ ''/'')
                @ (if take 1 f = ''/'' then drop 1 f else f)) of
        Inl e \<Rightarrow> Inl e
      | Inr joined \<Rightarrow>
          Inr \<lparr>page_id = dict_get layout ''layoutId'' (JInt 0),
               page_path = (if parent_url = [] then [] else parent_url @ ''/'')
                             @ (if take 1 f = ''/'' then drop 1 f else f),
               page_url = (if joined \<noteq> [] \<and> last joined = CHR ''/'' then butlast joined else joined),
               page_title = dict_get layout ''name'' (JStr []),
               page_parent_id = dict_get layout ''parentLayoutId'' (JInt 0),
               page_private = is_private\<rparr>)"
  using assms
  by (simp add: from_json_def Let_def startswith_slash_def endswith_slash_def split: sum.splits)

lemma strip_slash_end:
  "endswith_slash (if joined \<noteq> [] \<and> last joined = CHR ''/'' then butlast joined else joined)
     \<Longrightarrow> \<exists>r. joined = r @ ''//''"
proof -
  assume a: "endswith_slash (if joined \<noteq> [] \<and> last joined = CHR ''/'' then butlast joined else joined)"
  show ?thesis
  proof (cases "joined \<noteq> [] \<and> last joined = CHR ''/''")
    case True
    with a have b: "butlast joined \<noteq> []" "last (butlast joined) = CHR ''/''"
      by (simp_all add: endswith_slash_def)
    from True have "joined = butlast joined @ ''/''"
      by (metis append_butlast_last_id)
    moreover from b have "butlast joined = butlast (butlast joined) @ ''/''"
      by (metis append_butlast_last_id)
    ultimately have "joined = butlast (butlast joined) @ ''//''"
      by (metis append.assoc append_Cons append_Nil)
    then show ?thesis by blast
  next
    case False
    with a show ?thesis by (auto simp: endswith_slash_def)
  qed
qed

text \<open>The joined URL of the path \<^verbatim>\<open>a/b/c/\<close> ends with \<^verbatim>\<open>c/\<close>, whatever the base.\<close>

lemma urlparse_example:
  "\<exists>s'. urlparse host_ok ''a/b/c/'' s = Inr (s', [], ''a/b/c/'', [], [], [])"
  by (simp add: urlparse_def urlsplit_def split_rest_def c0_or_space_def unsafe_byte_def Let_def)

lemma filter_middle_tail:
  "\<exists>ys. filter_middle (bp @ [''a'', ''b'', ''c'', []]) = ys @ [''a'', ''b'', ''c'', []]"
proof (cases bp)
  case Nil
  then show ?thesis by (simp add: filter_middle_def)
next
  case (Cons x xs)
  then have "filter_middle (bp @ [''a'', ''b'', ''c'', []])
      = (x # filter (\<lambda>x. x \<noteq> []) xs) @ [''a'', ''b'', ''c'', []]"
    by (simp add: filter_middle_def butlast_append)
  then show ?thesis by blast
qed

lemma resolve_tail:
  "foldl resolve_step acc (ys @ [''a'', ''b'', ''c'', []])
     = foldl resolve_step acc ys @ [''a'', ''b'', ''c'', []]"
  by (simp add: resolve_step_def)

lemma join_with_snoc:
  "zs \<noteq> [] \<Longrightarrow> join_with sep (zs @ [w]) = join_with sep zs @ sep @ w"
  by (induction sep zs rule: join_with.induct) auto

lemma join_tail:
  "\<exists>r. join_with ''/'' (zs @ [''a'', ''b'', ''c'', []]) = r @ ''c/''"
proof -
  have "join_with ''/'' ((zs @ [''a'', ''b'', ''c'']) @ [[]])
      = join_with ''/'' (zs @ [''a'', ''b'', ''c'']) @ ''/''"
    by (subst join_with_snoc) simp_all
  moreover have "join_with ''/'' ((zs @ [''a'', ''b'']) @ [''c''])
      = join_with ''/'' (zs @ [''a'', ''b'']) @ ''/'' @ ''c''"
    by (subst join_with_snoc) simp_all
  ultimately have "join_with ''/'' (zs @ [''a'', ''b'', ''c'', []])
      = (join_with ''/'' (zs @ [''a'', ''b'']) @ ''/'') @ ''c/''"
    by simp
  then show ?thesis by blast
qed

lemma suffix_if: "\<exists>p. (if A then x @ u else u) = p @ (u::string)"
  by (cases A) auto

lemma urlunsplit_suffix:
  "\<exists>p. urlunsplit (scheme, netloc, u, [], []) = p @ u"
proof -
  define A where "A \<longleftrightarrow> netloc \<noteq> [] \<or> (scheme \<noteq> [] \<and> scheme \<in> set uses_netloc) \<or> take 2 u = ''//''"
  define B where "B \<longleftrightarrow> u \<noteq> [] \<and> take 1 u \<noteq> ''/''"
  obtain p0 where p0: "(if B then ''/'' @ u else u) = p0 @ u"
    using suffix_if by blast
  have "(if A then ''//'' @ netloc @ p0 @ u else u) = (if A then (''//'' @ netloc @ p0) @ u else u)"
    by simp
  then obtain p1 where p1: "(if A then ''//'' @ netloc @ p0 @ u else u) = p1 @ u"
    using suffix_if [of A "''//'' @ netloc @ p0" u] by auto
  have "(if scheme \<noteq> [] then scheme @ '':'' @ p1 @ u else p1 @ u)
      = (if scheme \<noteq> [] then (scheme @ '':'' @ p1) @ u else p1 @ u)"
    by simp
  then obtain p2 where p2: "(if scheme \<noteq> [] then scheme @ '':'' @ p1 @ u else p1 @ u) = p2 @ u"
    by (cases "scheme \<noteq> []") auto
  have "urlunsplit (scheme, netloc, u, [], [])
      = (if scheme \<noteq> [] then scheme @ '':'' @ (if A then ''//'' @ netloc @ (if B then ''/'' @ u else u) else u)
         else (if A then ''//'' @ netloc @ (if B then ''/'' @ u else u) else u))"
    by (simp add: urlunsplit_def Let_def A_def B_def)
  also have "\<dots> = p2 @ u"
    unfolding p0 p1 p2 ..
  finally show ?thesis by blast
qed

lemma urlunparse_tail:
  "\<exists>r. urlunparse (scheme, netloc, q @ ''c/'', [], [], []) = r @ ''c/''"
proof -
  obtain p where "urlunsplit (scheme, netloc, q @ ''c/'', [], []) = p @ q @ ''c/''"
    using urlunsplit_suffix by blast
  then have "urlunparse (scheme, netloc, q @ ''c/'', [], [], []) = (p @ q) @ ''c/''"
    by (simp add: urlunparse_def)
  then show ?thesis by blast
qed

lemma merged_path_example:
  "\<exists>q. merged_path bpath ''a/b/c/'' = q @ ''c/''"
proof -
  let ?bp0 = "split_on CHR ''/'' bpath"
  let ?bp = "if last ?bp0 \<noteq> [] then butlast ?bp0 else ?bp0"
  have sp: "split_on CHR ''/'' ''a/b/c/'' = [''a'', ''b'', ''c'', []]" by simp
  obtain ys where ys: "filter_middle (?bp @ [''a'', ''b'', ''c'', []]) = ys @ [''a'', ''b'', ''c'', []]"
    using filter_middle_tail by blast
  obtain q where q: "join_with ''/'' (foldl resolve_step [] ys @ [''a'', ''b'', ''c'', []]) = q @ ''c/''"
    using join_tail by blast
  have t1: "take 1 ''a/b/c/'' \<noteq> ''/''" by simp
  have l: "last (ys @ [''a'', ''b'', ''c'', []]) = []" by simp
  have "merged_path bpath ''a/b/c/''
      = (if join_with ''/'' (foldl resolve_step [] (ys @ [''a'', ''b'', ''c'', []])) = [] then ''/''
         else join_with ''/'' (foldl resolve_step [] (ys @ [''a'', ''b'', ''c'', []])))"
    unfolding merged_path_def Let_def sp if_not_P [OF t1] ys l by simp
  also have "\<dots> = q @ ''c/''"
    unfolding resolve_tail q by simp
  finally show ?thesis by blast
qed

lemma resolve_py_example:
  assumes "resolve_py host_ok base ''a/b/c/'' = Inr j"
  shows "\<exists>r. j = r @ ''c/''"
proof -
  obtain bscheme bnetloc bpath bparams bquery bfragment
    where b: "urlparse host_ok base [] = Inr (bscheme, bnetloc, bpath, bparams, bquery, bfragment)"
    using assms by (auto simp: resolve_py_def split: sum.splits)
  obtain scheme where u: "urlparse host_ok ''a/b/c/'' bscheme = Inr (scheme, [], ''a/b/c/'', [], [], [])"
    using urlparse_example by blast
  show ?thesis
  proof (cases "scheme \<noteq> bscheme \<or> scheme \<notin> set uses_relative")
    case True
    with assms b u have "j = ''a/b/c/''" by (simp add: resolve_py_def)
    then have "j = ''a/b/'' @ ''c/''" by simp
    then show ?thesis by blast
  next
    case False
    obtain q where q: "merged_path bpath ''a/b/c/'' = q @ ''c/''"
      using merged_path_example by blast
    from assms b u False
    have "j = urlunparse (scheme, (if scheme \<in> set uses_netloc then bnetloc else []),
                          q @ ''c/'', [], [], [])"
      by (simp add: resolve_py_def Let_def q)
    then show ?thesis using urlunparse_tail by blast
  qed
qed

lemma urljoin_example:
  assumes "urljoin (resolve_py host_ok) base_url ''a/b/c/'' = Inr joined"
  shows "\<exists>r. joined = r @ ''c/''"
proof (cases "base_url = []")
  case True
  with assms have "joined = ''a/b/'' @ ''c/''" by (simp add: urljoin_def)
  then show ?thesis by blast
next
  case False
  with assms have "resolve_py host_ok base_url ''a/b/c/'' = Inr joined"
    by (simp add: urljoin_def)
  then show ?thesis by (rule resolve_py_example)
qed

text \<open>The entry of the claim under the base URL \<^verbatim>\<open>http://host\<close>.\<close>

lemma resolve_py_host:
  "resolve_py (\<lambda>h. True) ''http://host'' ''a/b/c/'' = Inr ''http://host/a/b/c/''"
  by code_simp

lemma from_json_host:
  "from_json (resolve_py (\<lambda>h. True)) [''layoutId'' \<mapsto> JInt 7, ''friendlyURL'' \<mapsto> JStr ''/c/'']
       ''a/b'' False ''http://host''
     = Inr \<lparr>page_id = JInt 7, page_path = ''a/b/c/'', page_url = ''http://host/a/b/c'',
            page_title = JStr [], page_parent_id = JInt 0, page_private = False\<rparr>"
  by (simp add: from_json_def dict_get_def urljoin_def startswith_slash_def endswith_slash_def
      resolve_py_host)

text \<open>
  Claim C6, as the code has it. For an entry whose friendly URL is the string \<open>f\<close>, the
  record's path is the parent path, a slash when the parent path is not empty, and
  \<open>f\<close> without one leading slash: a trailing slash of \<open>f\<close> stays in the path. The
  record's URL is what \<open>urljoin\<close> returns for the base URL and that path, with one
  trailing slash removed; it can end with a slash only when the joined URL ended with two.
  For the parent path \<^verbatim>\<open>a/b\<close> and the friendly URL \<^verbatim>\<open>/c/\<close> the path is \<^verbatim>\<open>a/b/c/\<close>,
  and for every base URL the record's URL ends with \<^verbatim>\<open>c\<close>: it has no trailing slash.
\<close>

theorem from_json_path_url:
  assumes "layout ''friendlyURL'' = Some (JStr f)"
    and "from_json (resolve_py host_ok) layout parent_url is_private base_url = Inr pg"
  shows "page_path pg = (if parent_url = [] then [] else parent_url @ ''/'')
                          @ (if take 1 f = ''/'' then drop 1 f else f)
       \<and> (\<exists>joined. urljoin (resolve_py host_ok) base_url (page_path pg) = Inr joined
             \<and> page_url pg = (if joined \<noteq> [] \<and> last joined = CHR ''/'' then butlast joined else joined)
             \<and> (endswith_slash (page_url pg) \<longrightarrow> (\<exists>r. joined = r @ ''//'')))
       \<and> (parent_url = ''a/b'' \<and> f = ''/c/''
            \<longrightarrow> page_path pg = ''a/b/c/'' \<and> \<not> endswith_slash (page_url pg)
                \<and> (\<exists>r. page_url pg = r @ ''c''))"
proof -
  from assms(1) have d: "dict_get layout ''friendlyURL'' (JStr []) = JStr f"
    by (simp add: dict_get_def)
  let ?path = "(if parent_url = [] then [] else parent_url @ ''/'')
                 @ (if take 1 f = ''/'' then drop 1 f else f)"
  from assms(2) obtain joined where j: "urljoin (resolve_py host_ok) base_url ?path = Inr joined"
    and pg: "pg = \<lparr>page_id = dict_get layout ''layoutId'' (JInt 0),
               page_path = ?path,
               page_url = (if joined \<noteq> [] \<and> last joined = CHR ''/'' then butlast joined else joined),
               page_title = dict_get layout ''name'' (JStr []),
               page_parent_id = dict_get layout ''parentLayoutId'' (JInt 0),
               page_private = is_private\<rparr>"
    unfolding from_json_str [OF d] by (auto split: sum.splits)
  have p: "page_path pg = ?path" using pg by simp
  have u: "page_url pg = (if joined \<noteq> [] \<and> last joined = CHR ''/'' then butlast joined else joined)"
    using pg by simp
  have e: "endswith_slash (page_url pg) \<longrightarrow> (\<exists>r. joined = r @ ''//'')"
    unfolding u using strip_slash_end by blast
  have x: "parent_url = ''a/b'' \<and> f = ''/c/''
            \<longrightarrow> page_path pg = ''a/b/c/'' \<and> \<not> endswith_slash (page_url pg)
                \<and> (\<exists>r. page_url pg = r @ ''c'')"
  proof
    assume a: "parent_url = ''a/b'' \<and> f = ''/c/''"
    then have pp: "?path = ''a/b/c/''" by simp
    with j obtain r where r: "joined = r @ ''c/''"
      using urljoin_example by metis
    then have pu: "page_url pg = r @ ''c''"
      unfolding u by (simp add: butlast_append)
    then have ne: "\<not> endswith_slash (page_url pg)"
      by (simp add: endswith_slash_def)
    from p pp have "page_path pg = ''a/b/c/''" by simp
    moreover from pu have "\<exists>r. page_url pg = r @ ''c''" by (rule exI)
    ultimately show "page_path pg = ''a/b/c/'' \<and> \<not> endswith_slash (page_url pg)
                \<and> (\<exists>r. page_url pg = r @ ''c'')"
      using ne by (intro conjI)
  qed
  from j p u e x show ?thesis by metis
qed

theorem from_json_path_url_witness:
  "from_json (resolve_py (\<lambda>h. True)) [''layoutId'' \<mapsto> JInt 7, ''friendlyURL'' \<mapsto> JStr ''/c/'']
       ''a/b'' False ''http://host''
     = Inr \<lparr>page_id = JInt 7, page_path = ''a/b/c/'', page_url = ''http://host/a/b/c'',
            page_title = JStr [], page_parent_id = JInt 0, page_private = False\<rparr>
   \<and> page_path \<lparr>page_id = JInt 7, page_path = ''a/b/c/'', page_url = ''http://host/a/b/c'',
            page_title = JStr [], page_parent_id = JInt 0, page_private = False\<rparr> = ''a/b/c/''
   \<and> \<not> endswith_slash (page_url \<lparr>page_id = JInt 7, page_path = ''a/b/c/'',
            page_url = ''http://host/a/b/c'',
            page_title = JStr [], page_parent_id = JInt 0, page_private = False\<rparr>)"
proof -
  have fr: "[''layoutId'' \<mapsto> JInt 7, ''friendlyURL'' \<mapsto> JStr ''/c/''] ''friendlyURL'' = Some (JStr ''/c/'')"
    by simp
  from from_json_path_url [OF fr from_json_host] from_json_host show ?thesis by simp
qed

text \<open>The claim as stated gives the path \<^verbatim>\<open>a/b/c\<close> for this entry; the code builds
  \<^verbatim>\<open>a/b/c/\<close>, and the URL \<^verbatim>\<open>http://host/a/b/c\<close> without a trailing slash.\<close>

theorem from_json_path_counterexample:
  "from_json (resolve_py (\<lambda>h. True)) [''friendlyURL'' \<mapsto> JStr ''/c/''] ''a/b'' False ''http://host''
     = Inr \<lparr>page_id = JInt 0, page_path = ''a/b/c/'', page_url = ''http://host/a/b/c'',
            page_title = JStr [], page_parent_id = JInt 0, page_private = False\<rparr>
   \<and> page_path (projr (from_json (resolve_py (\<lambda>h. True)) [''friendlyURL'' \<mapsto> JStr ''/c/'']
                          ''a/b'' False ''http://host'')) \<noteq> ''a/b/c''
   \<and> \<not> endswith_slash (page_url (projr (from_json (resolve_py (\<lambda>h. True))
                          [''friendlyURL'' \<mapsto> JStr ''/c/''] ''a/b'' False ''http://host'')))"
  by (simp add: from_json_def dict_get_def urljoin_def startswith_slash_def endswith_slash_def
      resolve_py_host)

lemma from_json_not_str:
  assumes "layout ''friendlyURL'' = Some v" and "\<forall>f. v \<noteq> JStr f"
  shows "from_json resolve layout parent_url is_private base_url = Inl AttributeError"
  using assms by (cases v) (simp_all add: from_json_def dict_get_def)




subsection \<open>Plain-text export\<close>



text \<open>Since a slash is removed after the sort, the lines themselves need not be in
  order.\<close>

lemma txt_unsorted_example:
  "txt_lines [example_page ''a/'', example_page ''a-'']
     = [''a-'' @ [CHR 0x0A], ''a'' @ [CHR 0x0A]] \<and> \<not> sorted [''a-'', ''a'']"
  by code_simp


end
